theory Spec2Isabelle
  imports Main
begin

section \<open>Bytes, digests and text\<close>

text \<open>
  A JavaScript string is modelled by its UTF-8 bytes, a \<open>Buffer\<close> by its bytes; both are
  \<open>char list\<close> (an Isabelle \<open>char\<close> is one byte), so \<open>Buffer.from(str)\<close> and
  \<open>hash.update(str)\<close> read the string as it is.

  \<open>crypto.createHash('sha256')\<close> belongs to the Node.js runtime, not to the repository:
  every function that hashes takes the hash function as its first argument \<open>H\<close>, which
  maps the bytes of the message to the bytes of the digest (\<open>.update(m).digest()\<close>; 32
  bytes for SHA-256).
\<close>

type_synonym buffer = string
type_synonym sha256 = "buffer \<Rightarrow> buffer"

definition hexdigit :: "nat \<Rightarrow> char" where
  "hexdigit n = ''0123456789abcdef'' ! (n mod 16)"

text \<open>\<open>buf.toString('hex')\<close>: two lower-case digits per byte.\<close>

definition toHex :: "buffer \<Rightarrow> string" where
  "toHex bs = concat (map (\<lambda>c. [hexdigit (of_char c div 16), hexdigit (of_char c mod 16)]) bs)"

text \<open>\<open>crypto.createHash('sha256').update(s).digest('hex')\<close>\<close>

definition sha256_hex :: "sha256 \<Rightarrow> buffer \<Rightarrow> string" where
  "sha256_hex H s = toHex (H s)"

text \<open>
  \<open>h.readUInt32BE(0)\<close>: the first four bytes as a big-endian number. The buffers it is
  applied to are digests, which have 32 bytes, so the read is always in range.
\<close>

definition readUInt32BE :: "buffer \<Rightarrow> nat" where
  "readUInt32BE h = foldl (\<lambda>a c. a * 256 + of_char c) 0 (take 4 h)"

text \<open>\<open>String(n)\<close> and string concatenation with a non-negative integer: decimal digits.\<close>

function dec :: "nat \<Rightarrow> string" where
  "dec n = (if n < 10 then [''0123456789'' ! n] else dec (n div 10) @ [''0123456789'' ! (n mod 10)])"
  by pat_completeness auto
termination
  by (relation "measure id") auto

declare dec.simps [simp del]

section \<open>Winner selection (server.js, selectWinners)\<close>

text \<open>
  A JavaScript array can hold \<open>undefined\<close>, reads past its end give \<open>undefined\<close> and a
  write past its end extends it: array elements are \<open>'a option\<close> with \<open>None\<close> for
  \<open>undefined\<close> (and for a hole, which reads the same).
\<close>

definition js_get :: "'a option list \<Rightarrow> nat \<Rightarrow> 'a option" where
  "js_get arr i = (if i < length arr then arr ! i else None)"

definition js_set :: "'a option list \<Rightarrow> nat \<Rightarrow> 'a option \<Rightarrow> 'a option list" where
  "js_set arr i v =
     (if i < length arr then arr[i := v]
      else arr @ replicate (i - length arr) None @ [v])"

text \<open>
  \<open>(rnd % (n - i)) + i\<close> for a non-negative \<open>rnd\<close>: JavaScript's remainder takes the
  sign of the dividend, so a negative divisor acts as its absolute value, and a zero
  divisor gives \<open>NaN\<close> (here \<open>None\<close>), which the addition keeps.
\<close>

definition draw_index :: "nat \<Rightarrow> nat \<Rightarrow> nat \<Rightarrow> nat option" where
  "draw_index rnd n i =
     (if n = i then None
      else if i < n then Some (rnd mod (n - i) + i)
      else Some (rnd mod (i - n) + i))"

text \<open>
  The body of the loop. With \<open>j = NaN\<close> the read \<open>arr[j]\<close> is \<open>undefined\<close> and the write
  \<open>arr[j] = temp\<close> sets a property that is no element of the array.
\<close>

definition swap_step :: "sha256 \<Rightarrow> buffer \<Rightarrow> nat \<Rightarrow> 'a option list \<Rightarrow> nat \<Rightarrow> 'a option list" where
  "swap_step H randBase n arr i =
     (let h = H (randBase @ [char_of i]);
          rnd = readUInt32BE h;
          temp = js_get arr i
      in case draw_index rnd n i of
           None \<Rightarrow> js_set arr i None
         | Some j \<Rightarrow> js_set (js_set arr i (js_get arr j)) j temp)"

function selectWinners_loop ::
  "sha256 \<Rightarrow> buffer \<Rightarrow> nat \<Rightarrow> int \<Rightarrow> 'a option list \<Rightarrow> nat \<Rightarrow> 'a option list" where
  "selectWinners_loop H randBase n k arr i =
     (if int i < k then selectWinners_loop H randBase n k (swap_step H randBase n arr i) (Suc i)
      else arr)"
  by pat_completeness auto
termination
  by (relation "measure (\<lambda>(H, randBase, n, k, arr, i). nat (k - int i))") auto

declare selectWinners_loop.simps [simp del]

text \<open>\<open>arr.slice(0, k)\<close>: a negative \<open>k\<close> counts from the end.\<close>

definition js_slice0 :: "'b list \<Rightarrow> int \<Rightarrow> 'b list" where
  "js_slice0 arr k =
     (if k < 0 then take (nat (int (length arr) + k)) arr else take (nat k) arr)"

definition selectWinners :: "sha256 \<Rightarrow> 'a list \<Rightarrow> int \<Rightarrow> buffer \<Rightarrow> 'a option list" where
  "selectWinners H participants k randBase =
     (let arr = map Some participants;
          n = length arr
      in js_slice0 (selectWinners_loop H randBase n k arr 0) k)"

text \<open>
  A stand-in for SHA-256 on which concrete inputs can be evaluated: the length of the
  message as the fourth byte of a digest of 32 bytes.
\<close>

definition len_hash :: sha256 where
  "len_hash bs = replicate 3 (CHR 0x00) @ [char_of (length bs)] @ replicate 28 (CHR 0x00)"


section \<open>The audit chain (blockchain.js)\<close>

text \<open>
  The engine keeps JavaScript arrays and objects that are shared between the winners
  record of a session and the payload of a block. Such arrays and objects live in a
  store and are named by their address: \<open>arrays\<close> holds the winner arrays, \<open>objects\<close>
  the own properties of the \<open>tiers\<close> objects (tier name to the address of its array, in
  insertion order), \<open>protos\<close> the array that an assignment to \<open>__proto__\<close> has made the
  prototype of a \<open>tiers\<close> object, if any. An array element is a participant or
  \<open>undefined\<close>.
\<close>

type_synonym jsval = "string option"

datatype ('a, 'o) payload =
    GENESIS
  | SESSION_CREATED string string string
  | USER_ENTERED string string
  | SEED_REVEALED string string
  | DRAWN string 'a 'o string
  | TIER_DRAWN string string 'a string
  | USERS_IMPORTED string "string list"

type_synonym ref_payload = "(nat, nat) payload"
type_synonym json_payload = "(jsval list, (string \<times> jsval list) list) payload"

record block =
  index :: nat
  timestamp :: nat
  data :: ref_payload
  previousHash :: string
  hash :: string

text \<open>
  \<open>JSON.stringify\<close> belongs to the runtime as well; it is the argument \<open>J\<close>. It sees the
  block without its \<open>hash\<close>, with every array and object read from the store at the
  time of the call.
\<close>

type_synonym clone = "nat \<times> nat \<times> json_payload \<times> string"
type_synonym stringify = "clone \<Rightarrow> string"

definition resolve ::
  "(nat \<Rightarrow> jsval list) \<Rightarrow> (nat \<Rightarrow> (string \<times> nat) list) \<Rightarrow> ref_payload \<Rightarrow> json_payload" where
  "resolve arrs objs d = map_payload arrs (\<lambda>ob. map (\<lambda>(t, a). (t, arrs a)) (objs ob)) d"

definition computeHash ::
  "sha256 \<Rightarrow> stringify \<Rightarrow> (nat \<Rightarrow> jsval list) \<Rightarrow> (nat \<Rightarrow> (string \<times> nat) list) \<Rightarrow> block \<Rightarrow> string" where
  "computeHash H J arrs objs b =
     (let blockString = J (index b, timestamp b, resolve arrs objs (data b), previousHash b)
      in sha256_hex H blockString)"

definition createGenesisBlock :: "sha256 \<Rightarrow> stringify \<Rightarrow> nat \<Rightarrow> block" where
  "createGenesisBlock H J now =
     (let genesis = \<lparr>index = 0, timestamp = now, data = GENESIS, previousHash = ''0'', hash = []\<rparr>
      in genesis\<lparr>hash := computeHash H J (\<lambda>_. []) (\<lambda>_. []) genesis\<rparr>)"

section \<open>The engine state (server.js)\<close>

record session =
  session_id :: string
  name :: string
  seedHash :: string
  revealedSeed :: "string option"
  drawn :: bool

record winnersObj =
  all_ref :: nat
  tiers_ref :: nat

text \<open>
  The chain of a \<open>Blockchain\<close> instance is never empty: the constructor pushes the
  genesis block and nothing removes a block. It is the genesis block and the blocks
  appended since. The server starts with no sessions (no saved state file). The
  participants array of a session is referred to from the state only, and the \<open>users\<close>
  array of a \<open>USERS_IMPORTED\<close> block from the block only: they are kept as values.
\<close>

record state =
  sessions :: "string \<rightharpoonup> session"
  participants :: "string \<rightharpoonup> string list"
  winners :: "string \<rightharpoonup> winnersObj"
  genesis :: block
  appended :: "block list"
  arrays :: "nat \<Rightarrow> jsval list"
  arr_next :: nat
  objects :: "nat \<Rightarrow> (string \<times> nat) list"
  obj_next :: nat
  protos :: "nat \<rightharpoonup> nat"

definition chain :: "state \<Rightarrow> block list" where
  "chain st = genesis st # appended st"

definition init :: "sha256 \<Rightarrow> stringify \<Rightarrow> nat \<Rightarrow> state" where
  "init H J now =
     \<lparr>sessions = Map.empty, participants = Map.empty, winners = Map.empty,
      genesis = createGenesisBlock H J now, appended = [],
      arrays = (\<lambda>_. []), arr_next = 0, objects = (\<lambda>_. []), obj_next = 0,
      protos = Map.empty\<rparr>"

definition addBlock :: "sha256 \<Rightarrow> stringify \<Rightarrow> nat \<Rightarrow> ref_payload \<Rightarrow> state \<Rightarrow> state" where
  "addBlock H J now d st =
     (let lastBlock = last (chain st);
          block = \<lparr>index = index lastBlock + 1, timestamp = now, data = d,
                   previousHash = hash lastBlock, hash = []\<rparr>;
          block' = block\<lparr>hash := computeHash H J (arrays st) (objects st) block\<rparr>
      in st\<lparr>appended := appended st @ [block']\<rparr>)"

definition getLatestHash :: "state \<Rightarrow> string" where
  "getLatestHash st = hash (last (chain st))"

fun isValid_from :: "sha256 \<Rightarrow> stringify \<Rightarrow> state \<Rightarrow> block \<Rightarrow> block list \<Rightarrow> bool" where
  "isValid_from H J st prev [] = True"
| "isValid_from H J st prev (current # rest) =
     (if previousHash current \<noteq> hash prev then False
      else if computeHash H J (arrays st) (objects st) current \<noteq> hash current then False
      else isValid_from H J st current rest)"

definition isValid :: "sha256 \<Rightarrow> stringify \<Rightarrow> state \<Rightarrow> bool" where
  "isValid H J st = isValid_from H J st (genesis st) (appended st)"

text \<open>
  A new array or object gets the next free address: \<open>arr_next st\<close> is the address of the
  array that \<open>alloc_array v st\<close> creates, \<open>obj_next st\<close> that of the object that
  \<open>alloc_object v st\<close> creates. The prototype of a new object is \<open>Object.prototype\<close>.
\<close>

definition alloc_array :: "jsval list \<Rightarrow> state \<Rightarrow> state" where
  "alloc_array v st =
     st\<lparr>arrays := (arrays st)(arr_next st := v), arr_next := Suc (arr_next st)\<rparr>"

definition alloc_object :: "(string \<times> nat) list \<Rightarrow> state \<Rightarrow> state" where
  "alloc_object v st =
     st\<lparr>objects := (objects st)(obj_next st := v), obj_next := Suc (obj_next st),
        protos := (protos st)(obj_next st := None)\<rparr>"

text \<open>\<open>obj[key] = v\<close> on an object with string keys: an existing key keeps its place.\<close>

fun obj_set :: "(string \<times> 'v) list \<Rightarrow> string \<Rightarrow> 'v \<Rightarrow> (string \<times> 'v) list" where
  "obj_set [] key v = [(key, v)]"
| "obj_set ((k, x) # kvs) key v = (if k = key then (k, v) # kvs else (k, x) # obj_set kvs key v)"

text \<open>
  Reading \<open>obj[key]\<close> also finds what the object inherits. The function-valued
  properties of \<open>Object.prototype\<close> and of \<open>Array.prototype\<close> with the \<open>length\<close> of the
  function, as ECMAScript (2023, with its annex B) defines them; \<open>__proto__\<close> is an
  accessor of \<open>Object.prototype\<close> and is treated apart.
\<close>

definition object_prototype :: "(string \<times> nat) list" where
  "object_prototype =
     [(''constructor'', 1), (''hasOwnProperty'', 1), (''isPrototypeOf'', 1),
      (''propertyIsEnumerable'', 1), (''toLocaleString'', 0), (''toString'', 0),
      (''valueOf'', 0), (''__defineGetter__'', 2), (''__defineSetter__'', 2),
      (''__lookupGetter__'', 1), (''__lookupSetter__'', 1)]"

definition array_prototype :: "(string \<times> nat) list" where
  "array_prototype =
     [(''at'', 1), (''concat'', 1), (''constructor'', 1), (''copyWithin'', 2), (''entries'', 0),
      (''every'', 1), (''fill'', 1), (''filter'', 1), (''find'', 1), (''findIndex'', 1),
      (''findLast'', 1), (''findLastIndex'', 1), (''flat'', 0), (''flatMap'', 1),
      (''forEach'', 1), (''includes'', 1), (''indexOf'', 1), (''join'', 1), (''keys'', 0),
      (''lastIndexOf'', 1), (''map'', 1), (''pop'', 0), (''push'', 1), (''reduce'', 1),
      (''reduceRight'', 1), (''reverse'', 0), (''shift'', 0), (''slice'', 2), (''some'', 1),
      (''sort'', 1), (''splice'', 2), (''toLocaleString'', 0), (''toReversed'', 0),
      (''toSorted'', 1), (''toSpliced'', 2), (''toString'', 0), (''unshift'', 1),
      (''values'', 0), (''with'', 2)]"

text \<open>
  What a read of a property gives, as far as the handlers look at it: \<open>undefined\<close>, an
  array of the store, a string, a number, a function with its \<open>length\<close>, or the object
  \<open>Object.prototype\<close>.
\<close>

datatype jsprop = Undef | Arr nat | Str string | Num nat | Fn nat | Obj

text \<open>\<open>obj[key]\<close> for a key that is no own property of an object with the prototype \<open>Object.prototype\<close>.\<close>

definition inherited_from_Object :: "string \<Rightarrow> jsprop" where
  "inherited_from_Object key =
     (if key = ''__proto__'' then Obj
      else case map_of object_prototype key of Some l \<Rightarrow> Fn l | None \<Rightarrow> Undef)"

text \<open>
  \<open>obj[key]\<close> for a key other than \<open>__proto__\<close> that is no own property of an object whose
  prototype is the array \<open>arr\<close>: an element of the array, its \<open>length\<close>, or what the
  array inherits.
\<close>

definition inherited_from_array :: "jsval list \<Rightarrow> string \<Rightarrow> jsprop" where
  "inherited_from_array arr key =
     (case find (\<lambda>i. dec i = key) [0..<length arr] of
        Some i \<Rightarrow> (case arr ! i of Some u \<Rightarrow> Str u | None \<Rightarrow> Undef)
      | None \<Rightarrow>
          if key = ''length'' then Num (length arr)
          else case map_of array_prototype key of
            Some l \<Rightarrow> Fn l
          | None \<Rightarrow> (case map_of object_prototype key of Some l \<Rightarrow> Fn l | None \<Rightarrow> Undef))"

text \<open>\<open>tiers[key]\<close> for the \<open>tiers\<close> object at the address \<open>ob\<close>.\<close>

definition tiers_get :: "state \<Rightarrow> nat \<Rightarrow> string \<Rightarrow> jsprop" where
  "tiers_get st ob key =
     (case map_of (objects st ob) key of
        Some a \<Rightarrow> Arr a
      | None \<Rightarrow>
          (case protos st ob of
             None \<Rightarrow> inherited_from_Object key
           | Some p \<Rightarrow> if key = ''__proto__'' then Arr p else inherited_from_array (arrays st p) key))"

text \<open>
  \<open>tiers[key] = a\<close> for the array at the address \<open>a\<close>: the setter of \<open>__proto__\<close> makes the
  array the prototype of the object; any other key becomes or stays an own property.
\<close>

definition tiers_set :: "nat \<Rightarrow> string \<Rightarrow> nat \<Rightarrow> state \<Rightarrow> state" where
  "tiers_set ob key a st =
     (if key = ''__proto__'' then st\<lparr>protos := (protos st)(ob \<mapsto> a)\<rparr>
      else st\<lparr>objects := (objects st)(ob := obj_set (objects st ob) key a)\<rparr>)"

text \<open>
  \<open>state.winners[id] = { all: [], tiers: {} }\<close>: the new record and the state with its
  empty array and empty object.
\<close>

definition new_winnersObj :: "state \<Rightarrow> winnersObj" where
  "new_winnersObj st = \<lparr>all_ref = arr_next st, tiers_ref = obj_next st\<rparr>"

definition set_new_winners :: "string \<Rightarrow> state \<Rightarrow> state" where
  "set_new_winners ident st =
     (let w = new_winnersObj st;
          st1 = alloc_object [] (alloc_array [] st)
      in st1\<lparr>winners := (winners st1)(ident \<mapsto> w)\<rparr>)"

datatype error =
    NameAndSeedHashRequired
  | SessionIdAndUserRequired
  | SessionNotFound
  | SessionIdAndSeedRequired
  | SeedHashMismatch
  | SessionAlreadyDrawn
  | SeedNotRevealed
  | NoParticipants
  | SessionIdAndTierRequired
  | TierAlreadyDrawn string
  | NoParticipantsRemaining
  | SessionIdAndUsersRequired

datatype response =
    SessionId string
  | Participants "string list"
  | Ok
  | DrawResult "jsval list" "(string \<times> jsval list) list"
  | SingleDrawResult "jsval list"
  | TierResult "jsval list" string
  | ImportResult "string list" "string list"

type_synonym result = "(error + response) \<times> state"

text \<open>
  \<open>/api/createSession\<close>. \<open>Date.now()\<close> is read twice, for the identifier and for the
  block: \<open>now\<close> and \<open>now'\<close>.
\<close>

definition createSession ::
  "sha256 \<Rightarrow> stringify \<Rightarrow> nat \<Rightarrow> nat \<Rightarrow> string \<Rightarrow> string \<Rightarrow> state \<Rightarrow> result" where
  "createSession H J now now' nm sh st =
     (if nm = [] \<or> sh = [] then (Inl NameAndSeedHashRequired, st)
      else
        let ident = dec now;
            st1 = st\<lparr>sessions := (sessions st)(ident \<mapsto>
                     \<lparr>session_id = ident, name = nm, seedHash = sh, revealedSeed = None, drawn = False\<rparr>)\<rparr>;
            st2 = st1\<lparr>participants := (participants st1)(ident \<mapsto> [])\<rparr>;
            st3 = set_new_winners ident st2;
            st4 = addBlock H J now' (SESSION_CREATED ident nm sh) st3
        in (Inr (SessionId ident), st4))"

definition participants_of :: "state \<Rightarrow> string \<Rightarrow> string list" where
  "participants_of st sessionId = (case participants st sessionId of None \<Rightarrow> [] | Some l \<Rightarrow> l)"

text \<open>\<open>/api/enter\<close>\<close>

definition enter :: "sha256 \<Rightarrow> stringify \<Rightarrow> nat \<Rightarrow> string \<Rightarrow> string \<Rightarrow> state \<Rightarrow> result" where
  "enter H J now sessionId user st =
     (if sessionId = [] \<or> user = [] then (Inl SessionIdAndUserRequired, st)
      else case sessions st sessionId of
        None \<Rightarrow> (Inl SessionNotFound, st)
      | Some s \<Rightarrow>
          let list = participants_of st sessionId
          in if user \<notin> set list then
               let list' = list @ [user];
                   st1 = st\<lparr>participants := (participants st)(sessionId \<mapsto> list')\<rparr>;
                   st2 = addBlock H J now (USER_ENTERED sessionId user) st1
               in (Inr (Participants list'), st2)
             else (Inr (Participants list), st))"

text \<open>\<open>/api/revealSeed\<close>\<close>

definition revealSeed :: "sha256 \<Rightarrow> stringify \<Rightarrow> nat \<Rightarrow> string \<Rightarrow> string \<Rightarrow> state \<Rightarrow> result" where
  "revealSeed H J now sessionId seed st =
     (if sessionId = [] \<or> seed = [] then (Inl SessionIdAndSeedRequired, st)
      else case sessions st sessionId of
        None \<Rightarrow> (Inl SessionNotFound, st)
      | Some s \<Rightarrow>
          let computedHash = sha256_hex H seed
          in if computedHash \<noteq> seedHash s then (Inl SeedHashMismatch, st)
             else
               let st1 = st\<lparr>sessions := (sessions st)(sessionId \<mapsto> s\<lparr>revealedSeed := Some seed\<rparr>)\<rparr>;
                   st2 = addBlock H J now (SEED_REVEALED sessionId seed) st1
               in (Inr Ok, st2))"


text \<open>
  \<open>/api/draw\<close> with \<open>tierCounts\<close>: the loop over \<open>Object.keys(tierCounts)\<close>. The object is
  given as its entries in key order; a count is the value of
  \<open>parseInt(tierCounts[tier], 10) || 0\<close>. The arguments \<open>remaining\<close>, \<open>tiers\<close> and
  \<open>allWinners\<close> are the variables of the loop.
\<close>

fun draw_tiers ::
  "sha256 \<Rightarrow> buffer \<Rightarrow> (string \<times> int) list \<Rightarrow> string list \<Rightarrow> (string \<times> jsval list) list \<Rightarrow>
   jsval list \<Rightarrow> (string \<times> jsval list) list \<times> jsval list" where
  "draw_tiers H randBase [] remaining tiers allWinners = (tiers, allWinners)"
| "draw_tiers H randBase ((tier, c) # rest) remaining tiers allWinners =
     (let count = min c (int (length remaining))
      in if count > 0 then
           let tierRand = H (randBase @ tier);
               winnersList = selectWinners H remaining count tierRand
           in draw_tiers H randBase rest
                (filter (\<lambda>u. Some u \<notin> set winnersList) remaining)
                (obj_set tiers tier winnersList)
                (allWinners @ winnersList)
         else draw_tiers H randBase rest remaining (obj_set tiers tier []) allWinners)"

text \<open>
  The arrays of the \<open>tiers\<close> object built by the loop, put into the store one after the
  other, and the addresses they get. The loop's entry for the key \<open>__proto__\<close>, if there
  is one, is no property: the assignment \<open>tiers[tier] = winnersList\<close> has made that array
  the prototype of the object.
\<close>

definition set_proto :: "nat \<Rightarrow> jsval list option \<Rightarrow> state \<Rightarrow> state" where
  "set_proto ob p st =
     (case p of
        None \<Rightarrow> st
      | Some ws \<Rightarrow> (alloc_array ws st)\<lparr>protos := (protos st)(ob \<mapsto> arr_next st)\<rparr>)"


fun alloc_arrays :: "jsval list list \<Rightarrow> state \<Rightarrow> state" where
  "alloc_arrays [] st = st"
| "alloc_arrays (ws # rest) st = alloc_arrays rest (alloc_array ws st)"

definition tier_refs :: "(string \<times> jsval list) list \<Rightarrow> state \<Rightarrow> (string \<times> nat) list" where
  "tier_refs tiers st = zip (map fst tiers) [arr_next st ..< arr_next st + length tiers]"

text \<open>
  \<open>/api/draw\<close>. \<open>numWinners\<close> and the counts are integers, 0 standing for a missing
  or falsy value; \<open>tierCounts = []\<close> stands for a missing or empty object.
\<close>

definition draw_with_tiers ::
  "sha256 \<Rightarrow> stringify \<Rightarrow> nat \<Rightarrow> string \<Rightarrow> session \<Rightarrow> string list \<Rightarrow> buffer \<Rightarrow>
   (string \<times> int) list \<Rightarrow> state \<Rightarrow> result" where
  "draw_with_tiers H J now sessionId s list randBase tierCounts st =
     (let r = draw_tiers H randBase tierCounts list [] [];
          tiers = filter (\<lambda>e. fst e \<noteq> ''__proto__'') (fst r);
          allWinners = snd r;
          st1 = st\<lparr>sessions := (sessions st)(sessionId \<mapsto> s\<lparr>drawn := True\<rparr>)\<rparr>;
          a = arr_next st1;
          st2 = alloc_array allWinners st1;
          refs = tier_refs tiers st2;
          st3 = alloc_arrays (map snd tiers) st2;
          ob = obj_next st3;
          st4 = set_proto ob (map_of (fst r) ''__proto__'') (alloc_object refs st3);
          st5 = st4\<lparr>winners := (winners st4)(sessionId \<mapsto> \<lparr>all_ref = a, tiers_ref = ob\<rparr>)\<rparr>;
          st6 = addBlock H J now (DRAWN sessionId a ob (toHex randBase)) st5
      in (Inr (DrawResult allWinners tiers), st6))"

definition draw_single ::
  "sha256 \<Rightarrow> stringify \<Rightarrow> nat \<Rightarrow> string \<Rightarrow> session \<Rightarrow> string list \<Rightarrow> buffer \<Rightarrow>
   int \<Rightarrow> state \<Rightarrow> result" where
  "draw_single H J now sessionId s list randBase numWinners st =
     (let k = min (if numWinners \<noteq> 0 then numWinners else 1) (int (length list));
          ws = selectWinners H list k randBase;
          st1 = st\<lparr>sessions := (sessions st)(sessionId \<mapsto> s\<lparr>drawn := True\<rparr>)\<rparr>;
          a = arr_next st1;
          st2 = alloc_array ws st1;
          ob = obj_next st2;
          st3 = alloc_object [(''default'', a)] st2;
          st4 = st3\<lparr>winners := (winners st3)(sessionId \<mapsto> \<lparr>all_ref = a, tiers_ref = ob\<rparr>)\<rparr>;
          ob2 = obj_next st4;
          st5 = alloc_object [(''default'', a)] st4;
          st6 = addBlock H J now (DRAWN sessionId a ob2 (toHex randBase)) st5
      in (Inr (SingleDrawResult ws), st6))"

definition draw ::
  "sha256 \<Rightarrow> stringify \<Rightarrow> nat \<Rightarrow> string \<Rightarrow> int \<Rightarrow> (string \<times> int) list \<Rightarrow> state \<Rightarrow> result" where
  "draw H J now sessionId numWinners tierCounts st =
     (case sessions st sessionId of
        None \<Rightarrow> (Inl SessionNotFound, st)
      | Some s \<Rightarrow>
          (if drawn s then (Inl SessionAlreadyDrawn, st)
           else (case revealedSeed s of
             None \<Rightarrow> (Inl SeedNotRevealed, st)
           | Some seed \<Rightarrow>
               (if seed = [] then (Inl SeedNotRevealed, st)
                else
                  (let list = participants_of st sessionId
                   in if list = [] then (Inl NoParticipants, st)
                      else
                        (let tip = getLatestHash st;
                             randBase = H (tip @ seed @ dec (length list))
                         in if tierCounts \<noteq> []
                            then draw_with_tiers H J now sessionId s list randBase tierCounts st
                            else draw_single H J now sessionId s list randBase numWinners st))))))"

definition DEFAULT_COUNTS :: "(string \<times> int) list" where
  "DEFAULT_COUNTS = [(''special'', 1), (''first'', 5), (''second'', 5), (''third'', 20)]"

text \<open>
  \<open>count || DEFAULT_COUNTS[tier] || 1\<close>. \<open>DEFAULT_COUNTS\<close> is an object literal, so the read
  also finds what \<open>Object.prototype\<close> defines: for such a tier name and the count 0 the
  value is a function or an object, here \<open>None\<close>.
\<close>

definition targetCount :: "string \<Rightarrow> int \<Rightarrow> int option" where
  "targetCount tier count =
     (if count \<noteq> 0 then Some count
      else case map_of DEFAULT_COUNTS tier of
        Some d \<Rightarrow> Some d
      | None \<Rightarrow> (case inherited_from_Object tier of Undef \<Rightarrow> Some 1 | _ \<Rightarrow> None))"

text \<open>\<open>Math.min(targetCount, remaining.length)\<close>: a function or an object gives \<open>NaN\<close>, here \<open>None\<close>.\<close>

definition min_count :: "int option \<Rightarrow> nat \<Rightarrow> int option" where
  "min_count c len = map_option (\<lambda>k. min k (int len)) c"

text \<open>
  \<open>selectWinners(remaining, n, randBase)\<close> where \<open>n\<close> may be \<open>NaN\<close>: then the test \<open>i < k\<close>
  of the loop fails at once and \<open>arr.slice(0, NaN)\<close> is empty.
\<close>

definition selectWinners_at :: "sha256 \<Rightarrow> 'a list \<Rightarrow> int option \<Rightarrow> buffer \<Rightarrow> 'a option list" where
  "selectWinners_at H candidates n randBase =
     (case n of None \<Rightarrow> [] | Some k \<Rightarrow> selectWinners H candidates k randBase)"

text \<open>\<open>v && v.length > 0\<close> for what a read of a property gave.\<close>

definition has_length :: "state \<Rightarrow> jsprop \<Rightarrow> bool" where
  "has_length st v =
     (case v of
        Undef \<Rightarrow> False
      | Arr a \<Rightarrow> arrays st a \<noteq> []
      | Str u \<Rightarrow> u \<noteq> []
      | Num n \<Rightarrow> False
      | Fn l \<Rightarrow> 0 < l
      | Obj \<Rightarrow> False)"

text \<open>\<open>winnersObj.tiers[t] && winnersObj.tiers[t].length > 0\<close>\<close>

definition tier_has_winners :: "state \<Rightarrow> winnersObj \<Rightarrow> string \<Rightarrow> bool" where
  "tier_has_winners st w t = has_length st (tiers_get st (tiers_ref w) t)"

text \<open>
  \<open>if (!state.winners[sessionId]) state.winners[sessionId] = { all: [], tiers: {} }\<close>
  and \<open>winnersObj = state.winners[sessionId]\<close>: the state after the statement, and the
  record it leaves for the session.
\<close>

definition ensure_winners :: "string \<Rightarrow> state \<Rightarrow> state" where
  "ensure_winners sessionId st =
     (case winners st sessionId of
        Some w \<Rightarrow> st
      | None \<Rightarrow> set_new_winners sessionId st)"

definition winnersObj_of :: "string \<Rightarrow> state \<Rightarrow> winnersObj" where
  "winnersObj_of sessionId st =
     (case winners st sessionId of
        Some w \<Rightarrow> w
      | None \<Rightarrow> new_winnersObj st)"

text \<open>
  \<open>/api/drawTier\<close>, from the computation of \<open>n\<close> on: the draw among the remaining
  participants and its recording. \<open>s\<close> is the session, \<open>w\<close> its winners record.
\<close>

definition drawTier_record ::
  "sha256 \<Rightarrow> stringify \<Rightarrow> nat \<Rightarrow> string \<Rightarrow> string \<Rightarrow> int \<Rightarrow> session \<Rightarrow> string \<Rightarrow> winnersObj \<Rightarrow>
   string list \<Rightarrow> state \<Rightarrow> result" where
  "drawTier_record H J now sessionId tier count s seed w remaining st1 =
     (let n = min_count (targetCount tier count) (length remaining);
          tip = getLatestHash st1;
          randBase = H (tip @ seed @ tier);
          winnersList = selectWinners_at H remaining n randBase;
          a = arr_next st1;
          st2 = alloc_array winnersList st1;
          st3 = tiers_set (tiers_ref w) tier a st2;
          st4 = st3\<lparr>arrays := (arrays st3)
                  (all_ref w := arrays st3 (all_ref w) @ arrays st3 a)\<rparr>;
          d = list_all (tier_has_winners st4 w) (map fst DEFAULT_COUNTS);
          st5 = st4\<lparr>sessions := (sessions st4)(sessionId \<mapsto> s\<lparr>drawn := d\<rparr>)\<rparr>;
          st6 = addBlock H J now (TIER_DRAWN sessionId tier a (toHex randBase)) st5
      in (Inr (TierResult winnersList tier), st6))"

text \<open>\<open>/api/drawTier\<close>\<close>

definition drawTier ::
  "sha256 \<Rightarrow> stringify \<Rightarrow> nat \<Rightarrow> string \<Rightarrow> string \<Rightarrow> int \<Rightarrow> state \<Rightarrow> result" where
  "drawTier H J now sessionId tier count st =
     (if sessionId = [] \<or> tier = [] then (Inl SessionIdAndTierRequired, st)
      else case sessions st sessionId of
        None \<Rightarrow> (Inl SessionNotFound, st)
      | Some s \<Rightarrow>
          (case revealedSeed s of
             None \<Rightarrow> (Inl SeedNotRevealed, st)
           | Some seed \<Rightarrow>
               if seed = [] then (Inl SeedNotRevealed, st)
               else
                 let w = winnersObj_of sessionId st;
                     st1 = ensure_winners sessionId st
                 in if tier_has_winners st1 w tier then (Inl (TierAlreadyDrawn tier), st1)
                    else
                      let list = participants_of st1 sessionId;
                          remaining = filter (\<lambda>u. Some u \<notin> set (arrays st1 (all_ref w))) list
                      in if remaining = [] then (Inl NoParticipantsRemaining, st1)
                         else drawTier_record H J now sessionId tier count s seed w remaining st1))"

text \<open>
  \<open>/api/importParticipants\<close>, for a request whose \<open>users\<close> is an array of strings.
  \<open>trim\<close> removes white space at both ends; the white space modelled is that of ASCII.
\<close>

definition is_space :: "char \<Rightarrow> bool" where
  "is_space c = (c \<in> set [CHR 0x09, CHR 0x0A, CHR 0x0B, CHR 0x0C, CHR 0x0D, CHR 0x20])"

definition trim :: "string \<Rightarrow> string" where
  "trim s = rev (dropWhile is_space (rev (dropWhile is_space s)))"

fun import_loop :: "string list \<Rightarrow> string list \<Rightarrow> string list \<Rightarrow> string list \<times> string list" where
  "import_loop [] list added = (list, added)"
| "import_loop (user # users) list added =
     (let u = trim user
      in if u \<noteq> [] \<and> u \<notin> set list then import_loop users (list @ [u]) (added @ [u])
         else import_loop users list added)"

definition importParticipants ::
  "sha256 \<Rightarrow> stringify \<Rightarrow> nat \<Rightarrow> string \<Rightarrow> string list \<Rightarrow> state \<Rightarrow> result" where
  "importParticipants H J now sessionId users st =
     (if sessionId = [] then (Inl SessionIdAndUsersRequired, st)
      else case sessions st sessionId of
        None \<Rightarrow> (Inl SessionNotFound, st)
      | Some s \<Rightarrow>
          let r = import_loop users (participants_of st sessionId) [];
              list = fst r;
              added = snd r;
              st1 = st\<lparr>participants := (participants st)(sessionId \<mapsto> list)\<rparr>;
              st2 = (if added \<noteq> [] then addBlock H J now (USERS_IMPORTED sessionId added) st1 else st1)
          in (Inr (ImportResult list added), st2))"

text \<open>\<open>GET /api/winners\<close>: the winners record as the response shows it.\<close>

definition getWinners :: "state \<Rightarrow> string \<Rightarrow> jsval list \<times> (string \<times> jsval list) list" where
  "getWinners st ident =
     (case winners st ident of
        None \<Rightarrow> ([], [])
      | Some w \<Rightarrow> (arrays st (all_ref w), map (\<lambda>(t, a). (t, arrays st a)) (objects st (tiers_ref w))))"

section \<open>Sequences of requests\<close>

text \<open>A request carries the clock readings its handler takes.\<close>

datatype event =
    CreateSession nat nat string string
  | Enter nat string string
  | RevealSeed nat string string
  | Draw nat string int "(string \<times> int) list"
  | DrawTier nat string string int
  | ImportParticipants nat string "string list"

fun handle :: "sha256 \<Rightarrow> stringify \<Rightarrow> event \<Rightarrow> state \<Rightarrow> result" where
  "handle H J (CreateSession now now' nm sh) st = createSession H J now now' nm sh st"
| "handle H J (Enter now sessionId user) st = enter H J now sessionId user st"
| "handle H J (RevealSeed now sessionId seed) st = revealSeed H J now sessionId seed st"
| "handle H J (Draw now sessionId numWinners tierCounts) st = draw H J now sessionId numWinners tierCounts st"
| "handle H J (DrawTier now sessionId tier count) st = drawTier H J now sessionId tier count st"
| "handle H J (ImportParticipants now sessionId users) st = importParticipants H J now sessionId users st"

text \<open>The state after a sequence of requests to a server started at time \<open>t0\<close>.\<close>

definition run :: "sha256 \<Rightarrow> stringify \<Rightarrow> nat \<Rightarrow> event list \<Rightarrow> state" where
  "run H J t0 evs = foldl (\<lambda>st e. snd (handle H J e st)) (init H J t0) evs"

text \<open>
  A stand-in for \<open>JSON.stringify\<close> on which concrete blocks can be evaluated: the fields
  of the block in order, separated by bars, arrays in brackets, \<open>undefined\<close> as \<open>null\<close>.
\<close>

definition bar :: "string list \<Rightarrow> string" where
  "bar xs = concat (map (\<lambda>x. x @ ''|'') xs)"

definition show_array :: "jsval list \<Rightarrow> string" where
  "show_array ws = ''['' @ bar (map (\<lambda>w. case w of None \<Rightarrow> ''null'' | Some u \<Rightarrow> u) ws) @ '']''"

fun show_payload :: "json_payload \<Rightarrow> string" where
  "show_payload GENESIS = ''Genesis Block''"
| "show_payload (SESSION_CREATED i nm sh) = bar [''SESSION_CREATED'', i, nm, sh]"
| "show_payload (USER_ENTERED i u) = bar [''USER_ENTERED'', i, u]"
| "show_payload (SEED_REVEALED i sd) = bar [''SEED_REVEALED'', i, sd]"
| "show_payload (DRAWN i ws ts rb) =
     bar [''DRAWN'', i, show_array ws, bar (map (\<lambda>(t, xs). t @ '':'' @ show_array xs) ts), rb]"
| "show_payload (TIER_DRAWN i t ws rb) = bar [''TIER_DRAWN'', i, t, show_array ws, rb]"
| "show_payload (USERS_IMPORTED i us) = bar (''USERS_IMPORTED'' # i # us)"

definition bar_json :: stringify where
  "bar_json c = bar [dec (fst c), dec (fst (snd c)), show_payload (fst (snd (snd c))), snd (snd (snd c))]"


section \<open>A scenario\<close>

text \<open>
  The scenario of the specification, with the stand-ins for the hash and the
  serialisation: a session is created at time 5 (its identifier is \<open>5\<close>) with the
  commitment to the secret \<open>s3cr3t\<close>, \<open>a\<close>, \<open>b\<close> and \<open>c\<close> enrol, the secret is revealed.
\<close>

definition committed :: "event list" where
  "committed = [CreateSession 5 6 ''gala'' (sha256_hex len_hash ''s3cr3t'')]"

definition enrolled :: "event list" where
  "enrolled = committed @ [Enter 7 ''5'' ''a'', Enter 8 ''5'' ''b'', Enter 9 ''5'' ''c'']"

definition revealed :: "event list" where
  "revealed = enrolled @ [RevealSeed 10 ''5'' ''s3cr3t'']"

definition scenario :: "event list \<Rightarrow> state" where
  "scenario evs = run len_hash bar_json 0 evs"

text \<open>The states that a server reaches from its start.\<close>

definition reachable :: "sha256 \<Rightarrow> stringify \<Rightarrow> state \<Rightarrow> bool" where
  "reachable H J st \<longleftrightarrow> (\<exists>t0 evs. st = run H J t0 evs)"

text \<open>
  What holds of the identifiers and addresses of a reachable state: no session has
  the empty identifier, no revealed seed is empty, and the array and the object of a
  winners record have been allocated.
\<close>

definition well_formed :: "state \<Rightarrow> bool" where
  "well_formed st \<longleftrightarrow>
     [] \<notin> dom (sessions st)
     \<and> (\<forall>sid s. sessions st sid = Some s \<longrightarrow> revealedSeed s \<noteq> Some [])
     \<and> (\<forall>sid w. winners st sid = Some w \<longrightarrow> all_ref w < arr_next st \<and> tiers_ref w < obj_next st)"

section \<open>The selection as the specification words it\<close>

text \<open>
  The partial Fisher-Yates shuffle on a list of candidates: step \<open>i\<close> draws
  \<open>j = i + (uint32(H(material ++ encode(i))) mod (n - i))\<close>, where \<open>encode(i)\<close> is the
  single byte \<open>i mod 256\<close>, and swaps positions \<open>i\<close> and \<open>j\<close>; the winners are the first
  \<open>k\<close> elements after the steps \<open>0, ..., k - 1\<close>.
\<close>

definition drawn_index :: "sha256 \<Rightarrow> buffer \<Rightarrow> nat \<Rightarrow> nat \<Rightarrow> nat" where
  "drawn_index H material n i = i + readUInt32BE (H (material @ [char_of i])) mod (n - i)"

definition swap :: "'a list \<Rightarrow> nat \<Rightarrow> nat \<Rightarrow> 'a list" where
  "swap xs i j = xs[i := xs ! j, j := xs ! i]"

definition shuffle_steps :: "sha256 \<Rightarrow> buffer \<Rightarrow> 'a list \<Rightarrow> nat \<Rightarrow> 'a list" where
  "shuffle_steps H material candidates k =
     foldl (\<lambda>xs i. swap xs i (drawn_index H material (length candidates) i)) candidates [0..<k]"

definition partial_fisher_yates :: "sha256 \<Rightarrow> 'a list \<Rightarrow> buffer \<Rightarrow> nat \<Rightarrow> 'a list" where
  "partial_fisher_yates H candidates material k = take k (shuffle_steps H material candidates k)"

text \<open>
  The draw of a tier as the specification words it: \<open>remaining\<close> is the participants not
  yet in \<open>allWinners\<close>, the material is the hash of the chain tip, the revealed seed and
  the tier name, and the winners are \<open>select(remaining, material, min(c, len(remaining)))\<close>
  with the \<open>select\<close> of the specification; \<open>c\<close> is the count asked for, or the default of
  the tier when the count is 0 or missing.
\<close>

definition remaining_participants :: "state \<Rightarrow> string \<Rightarrow> string list" where
  "remaining_participants st sid =
     filter (\<lambda>u. Some u \<notin> set (fst (getWinners st sid))) (participants_of st sid)"

definition requested_count :: "string \<Rightarrow> int \<Rightarrow> int" where
  "requested_count tier count =
     (if count \<noteq> 0 then count
      else case map_of DEFAULT_COUNTS tier of Some d \<Rightarrow> d | None \<Rightarrow> 1)"

definition tier_selection :: "sha256 \<Rightarrow> state \<Rightarrow> string \<Rightarrow> string \<Rightarrow> int \<Rightarrow> string \<Rightarrow> jsval list" where
  "tier_selection H st sid tier count seed =
     map Some (partial_fisher_yates H (remaining_participants st sid)
       (H (getLatestHash st @ seed @ tier))
       (nat (min (requested_count tier count) (int (length (remaining_participants st sid))))))"

section \<open>Properties of the selection\<close>

lemma length_swap [simp]: "length (swap xs i j) = length xs"
  by (simp add: swap_def)

lemma drawn_index_bounds:
  assumes "i < n"
  shows "i \<le> drawn_index H material n i" and "drawn_index H material n i < n"
proof -
  show "i \<le> drawn_index H material n i"
    by (simp add: drawn_index_def)
  have "readUInt32BE (H (material @ [char_of i])) mod (n - i) < n - i"
    using assms by simp
  then show "drawn_index H material n i < n"
    by (simp add: drawn_index_def)
qed

lemma swap_step_in_range:
  assumes "i < n" and "length xs = n"
  shows "swap_step H material n (map Some xs) i = map Some (swap xs i (drawn_index H material n i))"
proof -
  let ?j = "drawn_index H material n i"
  have j: "?j < n"
    using assms(1) by (rule drawn_index_bounds)
  have d: "draw_index (readUInt32BE (H (material @ [char_of i]))) n i = Some ?j"
    using assms(1) by (simp add: draw_index_def drawn_index_def)
  show ?thesis
    using assms j
    by (simp add: swap_step_def d js_get_def js_set_def swap_def map_update)
qed

lemma length_shuffle_from:
  "length (foldl (\<lambda>xs i. swap xs i (f i)) xs is) = length xs"
  by (induction "is" arbitrary: xs) simp_all

lemma length_shuffle_steps [simp]:
  "length (shuffle_steps H material candidates k) = length candidates"
  by (simp add: shuffle_steps_def length_shuffle_from)

lemma selectWinners_loop_in_range:
  assumes "k \<le> n" and "length xs = n" and "i \<le> k"
  shows "selectWinners_loop H material n (int k) (map Some xs) i =
         map Some (foldl (\<lambda>ys i. swap ys i (drawn_index H material n i)) xs [i..<k])"
  using assms
proof (induction "k - i" arbitrary: i xs)
  case 0
  then have "i = k" by simp
  then show ?case by (subst selectWinners_loop.simps) simp
next
  case (Suc d)
  then have lt: "i < k" by simp
  then have "i < n" using Suc.prems(1) by simp
  then have step: "swap_step H material n (map Some xs) i =
                   map Some (swap xs i (drawn_index H material n i))"
    using Suc.prems(2) by (rule swap_step_in_range)
  have "selectWinners_loop H material n (int k) (map Some xs) i =
        selectWinners_loop H material n (int k)
          (map Some (swap xs i (drawn_index H material n i))) (Suc i)"
    using lt step by (subst selectWinners_loop.simps) simp
  also have "\<dots> = map Some (foldl (\<lambda>ys i. swap ys i (drawn_index H material n i))
                      (swap xs i (drawn_index H material n i)) [Suc i..<k])"
    using Suc.hyps Suc.prems lt by (intro Suc.hyps(1)) simp_all
  also have "\<dots> = map Some (foldl (\<lambda>ys i. swap ys i (drawn_index H material n i)) xs [i..<k])"
    using lt by (simp add: upt_conv_Cons)
  finally show ?case .
qed

lemma selectWinners_eq:
  assumes "k \<le> length candidates"
  shows "selectWinners H candidates (int k) material =
         map Some (partial_fisher_yates H candidates material k)"
proof -
  have "selectWinners_loop H material (length candidates) (int k) (map Some candidates) 0 =
        map Some (shuffle_steps H material candidates k)"
    using assms by (simp add: selectWinners_loop_in_range shuffle_steps_def)
  then show ?thesis
    by (simp add: selectWinners_def partial_fisher_yates_def js_slice0_def take_map)
qed

lemma shuffle_from_invariants:
  assumes "\<forall>i \<in> set is. i < length xs \<and> f i < length xs"
  shows "set (foldl (\<lambda>xs i. swap xs i (f i)) xs is) = set xs
       \<and> (distinct (foldl (\<lambda>xs i. swap xs i (f i)) xs is) \<longleftrightarrow> distinct xs)"
  using assms
proof (induction "is" arbitrary: xs)
  case Nil
  then show ?case by simp
next
  case (Cons a "is")
  have a: "a < length xs" "f a < length xs"
    using Cons.prems by simp_all
  have "\<forall>i \<in> set is. i < length (swap xs a (f a)) \<and> f i < length (swap xs a (f a))"
    using Cons.prems by simp
  from Cons.IH [OF this] a show ?case
    by (simp add: swap_def)
qed

lemma shuffle_steps_invariants:
  assumes "k \<le> length candidates"
  shows "set (shuffle_steps H material candidates k) = set candidates"
    and "distinct (shuffle_steps H material candidates k) \<longleftrightarrow> distinct candidates"
proof -
  have "\<forall>i \<in> set [0..<k]. i < length candidates
          \<and> drawn_index H material (length candidates) i < length candidates"
    using assms by (auto intro: drawn_index_bounds)
  from shuffle_from_invariants [OF this]
  show "set (shuffle_steps H material candidates k) = set candidates"
    and "distinct (shuffle_steps H material candidates k) \<longleftrightarrow> distinct candidates"
    by (simp_all add: shuffle_steps_def)
qed

text \<open>The steps from \<open>i\<close> on leave the positions before \<open>i\<close> as they are.\<close>

lemma later_steps_keep:
  assumes "p < i" and "\<forall>l \<in> set [i..<k]. l \<le> f l"
  shows "foldl (\<lambda>xs l. swap xs l (f l)) xs [i..<k] ! p = xs ! p"
  using assms
proof (induction "k - i" arbitrary: i xs)
  case 0
  then show ?case by simp
next
  case (Suc d)
  then have lt: "i < k" by simp
  have fi: "i \<le> f i" using Suc.prems(2) lt by simp
  have "foldl (\<lambda>xs l. swap xs l (f l)) xs [i..<k] ! p =
        foldl (\<lambda>xs l. swap xs l (f l)) (swap xs i (f i)) [Suc i..<k] ! p"
    using lt by (simp add: upt_conv_Cons)
  also have "\<dots> = swap xs i (f i) ! p"
    using Suc.hyps Suc.prems lt by (intro Suc.hyps(1)) simp_all
  also have "\<dots> = xs ! p"
    using Suc.prems(1) fi by (simp add: swap_def)
  finally show ?case .
qed

lemma shuffle_steps_Suc:
  "shuffle_steps H material candidates (Suc i) =
   swap (shuffle_steps H material candidates i) i (drawn_index H material (length candidates) i)"
  by (simp add: shuffle_steps_def)

lemma winner_is_the_drawn_element:
  assumes "k \<le> length candidates" and "i < k"
  shows "partial_fisher_yates H candidates material k ! i =
         shuffle_steps H material candidates i ! drawn_index H material (length candidates) i"
proof -
  let ?f = "drawn_index H material (length candidates)"
  let ?step = "\<lambda>xs l. swap xs l (?f l)"
  have in_range: "i < length candidates"
    using assms by simp
  have split: "[0..<k] = [0..<Suc i] @ [Suc i..<k]"
    using assms(2) by (metis Suc_leI le0 upt_add_eq_append le_add_diff_inverse)
  have "shuffle_steps H material candidates k =
        foldl ?step (shuffle_steps H material candidates (Suc i)) [Suc i..<k]"
    unfolding shuffle_steps_def by (subst split) (simp only: foldl_append)
  moreover have "\<forall>l \<in> set [Suc i..<k]. l \<le> ?f l"
    using assms(1) by (auto intro: drawn_index_bounds)
  ultimately have "shuffle_steps H material candidates k ! i =
                   shuffle_steps H material candidates (Suc i) ! i"
    by (simp add: later_steps_keep)
  also have "\<dots> = shuffle_steps H material candidates i ! ?f i"
    using in_range drawn_index_bounds [OF in_range, of H material]
    by (simp add: shuffle_steps_Suc swap_def nth_list_update)
  finally show ?thesis
    using assms(2) by (simp add: partial_fisher_yates_def)
qed

text \<open>
  Claim C1. For distinct candidates and \<open>0 \<le> k \<le> n\<close>, \<open>selectWinners\<close> returns the
  result of the partial Fisher-Yates shuffle as the specification words it: the first
  \<open>k\<close> elements after the swaps of the steps \<open>0, ..., k - 1\<close>, where step \<open>i\<close> swaps
  position \<open>i\<close> with \<open>j = i + (uint32 of the first four bytes of the hash of the
  material followed by the byte i) mod (n - i)\<close>. The result has \<open>k\<close> distinct
  candidates, and its element \<open>i\<close> is the one step \<open>i\<close> drew: the order is the draw
  order.
\<close>

theorem selectWinners_is_partial_fisher_yates:
  assumes "distinct candidates" and "k \<le> length candidates"
  shows "selectWinners H candidates (int k) material =
           map Some (partial_fisher_yates H candidates material k)
       \<and> length (partial_fisher_yates H candidates material k) = k
       \<and> distinct (partial_fisher_yates H candidates material k)
       \<and> set (partial_fisher_yates H candidates material k) \<subseteq> set candidates
       \<and> (\<forall>i < k. partial_fisher_yates H candidates material k ! i =
             shuffle_steps H material candidates i ! drawn_index H material (length candidates) i)"
proof -
  have "distinct (shuffle_steps H material candidates k)"
    using assms by (simp add: shuffle_steps_invariants)
  then have d: "distinct (partial_fisher_yates H candidates material k)"
    by (simp add: partial_fisher_yates_def)
  have "set (partial_fisher_yates H candidates material k) \<subseteq>
        set (shuffle_steps H material candidates k)"
    by (simp add: partial_fisher_yates_def set_take_subset)
  then have s: "set (partial_fisher_yates H candidates material k) \<subseteq> set candidates"
    using assms(2) by (simp add: shuffle_steps_invariants)
  have l: "length (partial_fisher_yates H candidates material k) = k"
    using assms(2) by (simp add: partial_fisher_yates_def)
  show ?thesis
    using assms(2) d s l
    by (simp add: selectWinners_eq winner_is_the_drawn_element)
qed

theorem selectWinners_is_partial_fisher_yates_witness:
  "distinct [''a'', ''b'', ''c'', ''d'', ''e''] \<and> (2::nat) \<le> length [''a'', ''b'', ''c'', ''d'', ''e'']
   \<and> selectWinners len_hash [''a'', ''b'', ''c'', ''d'', ''e''] (int 2) ''material'' =
       map Some (partial_fisher_yates len_hash [''a'', ''b'', ''c'', ''d'', ''e''] ''material'' 2)
   \<and> partial_fisher_yates len_hash [''a'', ''b'', ''c'', ''d'', ''e''] ''material'' 2 = [''e'', ''c'']"
proof -
  have h1: "distinct [''a'', ''b'', ''c'', ''d'', ''e'']"
    by simp
  have h2: "(2::nat) \<le> length [''a'', ''b'', ''c'', ''d'', ''e'']"
    by simp
  have v: "partial_fisher_yates len_hash [''a'', ''b'', ''c'', ''d'', ''e''] ''material'' 2 = [''e'', ''c'']"
    by code_simp
  show ?thesis
    using selectWinners_is_partial_fisher_yates [OF h1 h2, of len_hash "''material''"] h1 h2 v
    by blast
qed


subsection \<open>More winners than candidates\<close>

lemma js_get_beyond:
  assumes "length xs \<le> i"
  shows "js_get (xs @ replicate m None) i = None"
  using assms by (simp add: js_get_def nth_append)

lemma js_set_beyond:
  assumes "length xs \<le> i"
  shows "js_set (xs @ replicate m None) i None = xs @ replicate (max m (Suc (i - length xs))) None"
proof (cases "i < length xs + m")
  case True
  have "i - length xs < m"
    using True assms by simp
  then have "(replicate m None)[i - length xs := None] = replicate m (None :: 'a option)"
    by (simp add: list_eq_iff_nth_eq nth_list_update)
  then have "(xs @ replicate m None)[i := None] = xs @ replicate m None"
    using assms by (simp add: list_update_append)
  moreover have "max m (Suc (i - length xs)) = m"
    using True assms by simp
  ultimately show ?thesis
    using True by (simp add: js_set_def)
next
  case False
  let ?d = "i - (length xs + m)"
  have e: "max m (Suc (i - length xs)) = m + ?d + 1"
    using False assms by simp
  have "replicate (m + ?d + 1) (None :: 'a option) = replicate m None @ replicate ?d None @ [None]"
    by (simp only: replicate_add append_assoc One_nat_def replicate.simps)
  then have "replicate m None @ replicate ?d None @ [None] = replicate (m + ?d + 1) (None :: 'a option)"
    by (rule sym)
  moreover have "js_set (xs @ replicate m None) i None =
                 xs @ replicate m None @ replicate ?d None @ [None]"
    using False by (simp add: js_set_def)
  ultimately show ?thesis
    by (simp only: e)
qed

lemma swap_step_beyond:
  assumes "length xs = n" and "n \<le> i"
  shows "\<exists>m'. swap_step H material n (xs @ replicate m None) i = xs @ replicate m' None \<and> i < n + m'"
proof (cases "draw_index (readUInt32BE (H (material @ [char_of i]))) n i")
  case None
  have "js_set (xs @ replicate m None) i None = xs @ replicate (max m (Suc (i - n))) None"
    using assms by (simp add: js_set_beyond)
  moreover have "i < n + max m (Suc (i - n))"
    using assms(2) by simp
  ultimately show ?thesis
    using None by (auto simp: swap_step_def)
next
  case (Some j)
  then have j: "i \<le> j"
    by (auto simp: draw_index_def split: if_splits)
  let ?m1 = "max m (Suc (i - n))"
  let ?m2 = "max ?m1 (Suc (j - n))"
  have g: "js_get (xs @ replicate m None) i = None" "js_get (xs @ replicate m None) j = None"
    using assms j by (simp_all add: js_get_beyond)
  have "js_set (xs @ replicate m None) i None = xs @ replicate ?m1 None"
    using assms by (simp add: js_set_beyond)
  moreover have "js_set (xs @ replicate ?m1 None) j None = xs @ replicate ?m2 None"
    using assms j by (simp add: js_set_beyond)
  moreover have "i < n + ?m2"
    using assms(2) by simp
  ultimately show ?thesis
    using Some g by (auto simp: swap_step_def)
qed

lemma selectWinners_loop_beyond:
  assumes "length xs = n" and "n \<le> i" and "i \<le> n + m"
  shows "\<exists>m'. selectWinners_loop H material n k (xs @ replicate m None) i = xs @ replicate m' None
              \<and> k \<le> int (n + m') \<and> i \<le> n + m'"
  using assms
proof (induction "nat (k - int i)" arbitrary: i m)
  case 0
  then have "\<not> int i < k" by simp
  then have "selectWinners_loop H material n k (xs @ replicate m None) i = xs @ replicate m None"
    by (subst selectWinners_loop.simps) simp
  then show ?case
    using 0 by auto
next
  case (Suc d)
  then have lt: "int i < k" by simp
  obtain m1 where m1: "swap_step H material n (xs @ replicate m None) i = xs @ replicate m1 None"
    "i < n + m1"
    using swap_step_beyond [OF Suc.prems(1,2)] by blast
  have "d = nat (k - int (Suc i))"
    using Suc.hyps(2) by simp
  moreover have "n \<le> Suc i" "Suc i \<le> n + m1"
    using Suc.prems(2) m1(2) by simp_all
  ultimately obtain m' where
    "selectWinners_loop H material n k (xs @ replicate m1 None) (Suc i) = xs @ replicate m' None"
    "k \<le> int (n + m')" "Suc i \<le> n + m'"
    using Suc.hyps(1) [of "Suc i" m1] Suc.prems(1) by blast
  moreover have "selectWinners_loop H material n k (xs @ replicate m None) i =
                 selectWinners_loop H material n k (xs @ replicate m1 None) (Suc i)"
    using lt m1(1) by (subst selectWinners_loop.simps) simp
  ultimately show ?case
    by auto
qed

lemma selectWinners_loop_split:
  assumes "i \<le> l" and "int l \<le> k"
  shows "selectWinners_loop H material n k arr i =
         selectWinners_loop H material n k (selectWinners_loop H material n (int l) arr i) l"
  using assms
proof (induction "l - i" arbitrary: i arr)
  case 0
  then have "i = l" by simp
  moreover have "selectWinners_loop H material n (int l) arr l = arr"
    by (subst selectWinners_loop.simps) simp
  ultimately show ?case
    by simp
next
  case (Suc d)
  then have lt: "i < l" by simp
  have "selectWinners_loop H material n k arr i =
        selectWinners_loop H material n k (swap_step H material n arr i) (Suc i)"
    using lt Suc.prems(2) by (subst selectWinners_loop.simps) simp
  also have "\<dots> = selectWinners_loop H material n k
        (selectWinners_loop H material n (int l) (swap_step H material n arr i) (Suc i)) l"
    using Suc.hyps Suc.prems lt by (intro Suc.hyps(1)) simp_all
  also have "selectWinners_loop H material n (int l) (swap_step H material n arr i) (Suc i) =
             selectWinners_loop H material n (int l) arr i"
    using lt by (subst (2) selectWinners_loop.simps) simp
  finally show ?case .
qed

lemma selectWinners_beyond:
  assumes "length candidates < k"
  shows "selectWinners H candidates (int k) material =
         map Some (partial_fisher_yates H candidates material (length candidates))
           @ replicate (k - length candidates) None"
proof -
  let ?n = "length candidates"
  let ?full = "map Some (shuffle_steps H material candidates ?n)"
  have full: "selectWinners_loop H material ?n (int ?n) (map Some candidates) 0 = ?full"
    by (simp add: selectWinners_loop_in_range shuffle_steps_def)
  have "selectWinners_loop H material ?n (int k) (map Some candidates) 0 =
        selectWinners_loop H material ?n (int k) ?full ?n"
    using assms selectWinners_loop_split [of 0 ?n "int k" H material ?n "map Some candidates"]
    by (simp add: full)
  moreover obtain m' where
    "selectWinners_loop H material ?n (int k) (?full @ replicate 0 None) ?n = ?full @ replicate m' None"
    "int k \<le> int (?n + m')"
    using selectWinners_loop_beyond [of ?full ?n ?n 0 H material "int k"] by auto
  ultimately have loop: "selectWinners_loop H material ?n (int k) (map Some candidates) 0 =
                         ?full @ replicate m' None" and m': "k \<le> ?n + m'"
    by simp_all
  have "take k (?full @ replicate m' None) = ?full @ replicate (k - ?n) None"
    using assms m' by (simp add: min_def)
  then show ?thesis
    using assms by (simp add: selectWinners_def js_slice0_def loop partial_fisher_yates_def)
qed

lemma selectWinners_zero: "selectWinners H candidates 0 material = []"
  by (simp add: selectWinners_def js_slice0_def)

text \<open>
  Claim C8, as the code has it. With \<open>k = 0\<close> no step runs and the result is empty,
  whatever the hash function and the material. With \<open>k > n\<close> there is no error and no
  truncation: the result has \<open>k\<close> elements, the \<open>n\<close> candidates in the order of the full
  shuffle followed by \<open>k - n\<close> times \<open>undefined\<close>.
\<close>

theorem selectWinners_edge_cases:
  "selectWinners H candidates 0 material = []
   \<and> selectWinners_loop H material (length candidates) 0 (map Some candidates) 0 = map Some candidates
   \<and> (\<forall>k > length candidates.
         selectWinners H candidates (int k) material =
           map Some (partial_fisher_yates H candidates material (length candidates))
             @ replicate (k - length candidates) None)"
proof -
  have "selectWinners_loop H material (length candidates) 0 (map Some candidates) 0 = map Some candidates"
    by (subst selectWinners_loop.simps) simp
  then show ?thesis
    by (simp add: selectWinners_zero selectWinners_beyond)
qed

theorem selectWinners_edge_cases_witness:
  "(4::nat) > length [''a'', ''b'']
   \<and> selectWinners len_hash [''a'', ''b''] (int 4) ''material'' =
       map Some (partial_fisher_yates len_hash [''a'', ''b''] ''material'' (length [''a'', ''b'']))
         @ replicate (4 - length [''a'', ''b'']) None
   \<and> selectWinners len_hash [''a'', ''b''] (int 4) ''material'' = [Some ''b'', Some ''a'', None, None]"
proof -
  have h: "(4::nat) > length [''a'', ''b'']"
    by simp
  have v: "selectWinners len_hash [''a'', ''b''] (int 4) ''material'' = [Some ''b'', Some ''a'', None, None]"
    by code_simp
  show ?thesis
    using selectWinners_edge_cases [of len_hash "[''a'', ''b'']" "''material''"] h v
    by blast
qed

text \<open>
  Claim C8 as the specification states it fails: a call with more winners than
  candidates is not an error. One candidate and \<open>k = 2\<close> give the candidate and
  \<open>undefined\<close>.
\<close>

theorem selectWinners_too_many_counterexample:
  "selectWinners len_hash [''a''] 2 ''material'' = [Some ''a'', None]"
  by code_simp


section \<open>Properties of the engine\<close>

subsection \<open>What the operations on the state change\<close>

lemma addBlock_frame [simp]:
  "sessions (addBlock H J now d st) = sessions st"
  "participants (addBlock H J now d st) = participants st"
  "winners (addBlock H J now d st) = winners st"
  "genesis (addBlock H J now d st) = genesis st"
  "arrays (addBlock H J now d st) = arrays st"
  "arr_next (addBlock H J now d st) = arr_next st"
  "objects (addBlock H J now d st) = objects st"
  "obj_next (addBlock H J now d st) = obj_next st"
  "protos (addBlock H J now d st) = protos st"
  by (simp_all add: addBlock_def Let_def)

lemma addBlock_appended:
  "map data (appended (addBlock H J now d st)) = map data (appended st) @ [d]"
  "length (appended (addBlock H J now d st)) = Suc (length (appended st))"
  by (simp_all add: addBlock_def Let_def)

lemma participants_of_addBlock [simp]:
  "participants_of (addBlock H J now d st) sid = participants_of st sid"
  by (simp add: participants_of_def)

lemma alloc_array_frame [simp]:
  "sessions (alloc_array v st) = sessions st"
  "participants (alloc_array v st) = participants st"
  "winners (alloc_array v st) = winners st"
  "genesis (alloc_array v st) = genesis st"
  "appended (alloc_array v st) = appended st"
  "arrays (alloc_array v st) = (arrays st)(arr_next st := v)"
  "arr_next (alloc_array v st) = Suc (arr_next st)"
  "objects (alloc_array v st) = objects st"
  "obj_next (alloc_array v st) = obj_next st"
  "protos (alloc_array v st) = protos st"
  by (simp_all add: alloc_array_def)

lemma alloc_object_frame [simp]:
  "sessions (alloc_object v st) = sessions st"
  "participants (alloc_object v st) = participants st"
  "winners (alloc_object v st) = winners st"
  "genesis (alloc_object v st) = genesis st"
  "appended (alloc_object v st) = appended st"
  "arrays (alloc_object v st) = arrays st"
  "arr_next (alloc_object v st) = arr_next st"
  "objects (alloc_object v st) = (objects st)(obj_next st := v)"
  "obj_next (alloc_object v st) = Suc (obj_next st)"
  "protos (alloc_object v st) = (protos st)(obj_next st := None)"
  by (simp_all add: alloc_object_def)

lemma tiers_set_frame [simp]:
  "sessions (tiers_set ob key a st) = sessions st"
  "participants (tiers_set ob key a st) = participants st"
  "winners (tiers_set ob key a st) = winners st"
  "genesis (tiers_set ob key a st) = genesis st"
  "appended (tiers_set ob key a st) = appended st"
  "arrays (tiers_set ob key a st) = arrays st"
  "arr_next (tiers_set ob key a st) = arr_next st"
  "obj_next (tiers_set ob key a st) = obj_next st"
  by (simp_all add: tiers_set_def)

lemma tiers_set_own:
  "key \<noteq> ''__proto__'' \<Longrightarrow>
   objects (tiers_set ob key a st) = (objects st)(ob := obj_set (objects st ob) key a)"
  by (simp add: tiers_set_def)

lemma set_proto_frame [simp]:
  "sessions (set_proto ob p st) = sessions st"
  "participants (set_proto ob p st) = participants st"
  "winners (set_proto ob p st) = winners st"
  "genesis (set_proto ob p st) = genesis st"
  "appended (set_proto ob p st) = appended st"
  "objects (set_proto ob p st) = objects st"
  "obj_next (set_proto ob p st) = obj_next st"
  by (simp_all add: set_proto_def split: option.splits)

lemma arr_next_set_proto: "arr_next st \<le> arr_next (set_proto ob p st)"
  by (simp add: set_proto_def split: option.splits)

lemma set_new_winners_frame [simp]:
  "sessions (set_new_winners sid st) = sessions st"
  "participants (set_new_winners sid st) = participants st"
  "winners (set_new_winners sid st) = (winners st)(sid \<mapsto> new_winnersObj st)"
  "genesis (set_new_winners sid st) = genesis st"
  "appended (set_new_winners sid st) = appended st"
  "arrays (set_new_winners sid st) = (arrays st)(arr_next st := [])"
  "arr_next (set_new_winners sid st) = Suc (arr_next st)"
  "objects (set_new_winners sid st) = (objects st)(obj_next st := [])"
  "obj_next (set_new_winners sid st) = Suc (obj_next st)"
  by (simp_all add: set_new_winners_def Let_def)

lemma ensure_winners_frame [simp]:
  "sessions (ensure_winners sid st) = sessions st"
  "participants (ensure_winners sid st) = participants st"
  "genesis (ensure_winners sid st) = genesis st"
  "appended (ensure_winners sid st) = appended st"
  "winners (ensure_winners sid st) sid = Some (winnersObj_of sid st)"
  by (simp_all add: ensure_winners_def winnersObj_of_def split: option.splits)


lemma map_of_obj_set: "map_of (obj_set kvs key v) key = Some v"
  by (induction kvs key v rule: obj_set.induct) simp_all

lemma drawTier_record_frame:
  "participants (snd (drawTier_record H J now sid tier count s seed w remaining st1)) = participants st1"
  "winners (snd (drawTier_record H J now sid tier count s seed w remaining st1)) = winners st1"
  "genesis (snd (drawTier_record H J now sid tier count s seed w remaining st1)) = genesis st1"
  by (simp_all add: drawTier_record_def Let_def)

lemma drawTier_record_sessions:
  "\<exists>d. sessions (snd (drawTier_record H J now sid tier count s seed w remaining st1)) =
         (sessions st1)(sid \<mapsto> s\<lparr>drawn := d\<rparr>)"
proof -
  have "sessions (snd (drawTier_record H J now sid tier count s seed w remaining st1)) sid \<noteq> None"
    by (simp add: drawTier_record_def Let_def)
  then obtain s' where s': "sessions (snd (drawTier_record H J now sid tier count s seed w remaining st1)) sid = Some s'"
    by blast
  have "sessions (snd (drawTier_record H J now sid tier count s seed w remaining st1)) =
        (sessions st1)(sid \<mapsto> s\<lparr>drawn := drawn s'\<rparr>)"
    using s' by (auto simp: drawTier_record_def Let_def)
  then show ?thesis ..
qed

lemma draw_single_frame:
  "participants (snd (draw_single H J now sid s list randBase numWinners st)) = participants st"
  "sessions (snd (draw_single H J now sid s list randBase numWinners st)) =
     (sessions st)(sid \<mapsto> s\<lparr>drawn := True\<rparr>)"
  by (simp_all add: draw_single_def Let_def)

lemma alloc_arrays_frame [simp]:
  "sessions (alloc_arrays vs st) = sessions st"
  "participants (alloc_arrays vs st) = participants st"
  "winners (alloc_arrays vs st) = winners st"
  "genesis (alloc_arrays vs st) = genesis st"
  "appended (alloc_arrays vs st) = appended st"
  "objects (alloc_arrays vs st) = objects st"
  "obj_next (alloc_arrays vs st) = obj_next st"
  "arr_next (alloc_arrays vs st) = arr_next st + length vs"
  by (induction vs arbitrary: st) simp_all

lemma draw_with_tiers_frame:
  "participants (snd (draw_with_tiers H J now sid s list randBase tierCounts st)) = participants st"
  "sessions (snd (draw_with_tiers H J now sid s list randBase tierCounts st)) =
     (sessions st)(sid \<mapsto> s\<lparr>drawn := True\<rparr>)"
  by (simp_all add: draw_with_tiers_def Let_def)

subsection \<open>Draws leave the participants alone\<close>

lemma drawTier_participants:
  "participants (snd (drawTier H J now sid tier count st)) = participants st"
  by (simp add: drawTier_def Let_def drawTier_record_frame split: option.splits)

lemma draw_participants:
  "participants (snd (draw H J now sid numWinners tierCounts st)) = participants st"
  by (simp add: draw_def Let_def draw_single_frame draw_with_tiers_frame split: option.splits)

lemma drawTier_sessions:
  "map_option (\<lambda>s. s\<lparr>drawn := False\<rparr>) (sessions (snd (drawTier H J now sid tier count st)) i) =
   map_option (\<lambda>s. s\<lparr>drawn := False\<rparr>) (sessions st i)"
proof -
  have "\<exists>d. sessions (snd (drawTier_record H J now sid tier count s seed w remaining st1)) =
         (sessions st1)(sid \<mapsto> s\<lparr>drawn := d\<rparr>)" for s seed w remaining st1
    by (rule drawTier_record_sessions)
  then have "sessions st1 sid = Some s \<Longrightarrow>
     map_option (\<lambda>s. s\<lparr>drawn := False\<rparr>)
       (sessions (snd (drawTier_record H J now sid tier count s seed w remaining st1)) i) =
     map_option (\<lambda>s. s\<lparr>drawn := False\<rparr>) (sessions st1 i)" for s seed w remaining st1
    by (metis (no_types, lifting) fun_upd_apply option.simps(9) session.surjective session.update_convs(5))
  then show ?thesis
    by (simp add: drawTier_def Let_def split: option.splits)
qed

lemma draw_sessions:
  "map_option (\<lambda>s. s\<lparr>drawn := False\<rparr>) (sessions (snd (draw H J now sid numWinners tierCounts st)) i) =
   map_option (\<lambda>s. s\<lparr>drawn := False\<rparr>) (sessions st i)"
  by (simp add: draw_def Let_def draw_single_frame draw_with_tiers_frame split: option.splits)

text \<open>
  Claim C10. No draw changes the participants: after \<open>drawTier\<close> and after a
  whole-session \<open>draw\<close>, successful or not, every session has the participants it had, in
  the same order, and every session record is what it was up to its \<open>drawn\<close> flag.
\<close>

theorem draws_keep_participants:
  "participants (snd (drawTier H J now sid tier count st)) = participants st
   \<and> participants (snd (draw H J now sid numWinners tierCounts st)) = participants st
   \<and> map_option (\<lambda>s. s\<lparr>drawn := False\<rparr>) (sessions (snd (drawTier H J now sid tier count st)) i) =
       map_option (\<lambda>s. s\<lparr>drawn := False\<rparr>) (sessions st i)
   \<and> map_option (\<lambda>s. s\<lparr>drawn := False\<rparr>) (sessions (snd (draw H J now sid numWinners tierCounts st)) i) =
       map_option (\<lambda>s. s\<lparr>drawn := False\<rparr>) (sessions st i)"
  by (simp only: drawTier_participants draw_participants drawTier_sessions draw_sessions simp_thms)


subsection \<open>Reachable states are well formed\<close>

lemma dec_nonempty: "dec n \<noteq> []"
  by (subst dec.simps) simp

lemma run_snoc: "run H J t0 (evs @ [e]) = snd (handle H J e (run H J t0 evs))"
  by (simp add: run_def)

lemma well_formed_init: "well_formed (init H J t0)"
  by (simp add: well_formed_def init_def)

lemma well_formed_addBlock [simp]: "well_formed (addBlock H J now d st) = well_formed st"
  by (simp add: well_formed_def)

lemma well_formed_createSession:
  "well_formed st \<Longrightarrow> well_formed (snd (createSession H J now now' nm sh st))"
  by (auto simp: createSession_def Let_def well_formed_def new_winnersObj_def dec_nonempty
      dec_nonempty [THEN not_sym] less_Suc_eq)

lemma well_formed_enter:
  "well_formed st \<Longrightarrow> well_formed (snd (enter H J now sid user st))"
  by (auto simp: enter_def Let_def well_formed_def split: option.splits)

lemma well_formed_revealSeed:
  "well_formed st \<Longrightarrow> well_formed (snd (revealSeed H J now sid seed st))"
  by (auto simp: revealSeed_def Let_def well_formed_def split: option.splits)

lemma well_formed_importParticipants:
  "well_formed st \<Longrightarrow> well_formed (snd (importParticipants H J now sid users st))"
  by (auto simp: importParticipants_def Let_def well_formed_def split: option.splits)

lemma well_formed_draw_single:
  assumes "well_formed st" and "sessions st sid = Some s"
  shows "well_formed (snd (draw_single H J now sid s list randBase numWinners st))"
  using assms by (auto simp: draw_single_def Let_def well_formed_def less_Suc_eq)

lemma draw_with_tiers_allocation:
  "winners (snd (draw_with_tiers H J now sid s list randBase tierCounts st)) =
     (winners st)(sid \<mapsto> \<lparr>all_ref = arr_next st, tiers_ref = obj_next st\<rparr>)"
  "obj_next (snd (draw_with_tiers H J now sid s list randBase tierCounts st)) = Suc (obj_next st)"
  "arr_next st < arr_next (snd (draw_with_tiers H J now sid s list randBase tierCounts st))"
proof -
  let ?r = "draw_tiers H randBase tierCounts list [] []"
  let ?own = "filter (\<lambda>e. fst e \<noteq> ''__proto__'') (fst ?r)"
  let ?st2 = "alloc_array (snd ?r) (st\<lparr>sessions := (sessions st)(sid \<mapsto> s\<lparr>drawn := True\<rparr>)\<rparr>)"
  let ?st3 = "alloc_arrays (map snd ?own) ?st2"
  let ?st4 = "set_proto (obj_next ?st3) (map_of (fst ?r) ''__proto__'')
                (alloc_object (tier_refs ?own ?st2) ?st3)"
  have res: "snd (draw_with_tiers H J now sid s list randBase tierCounts st) =
        addBlock H J now (DRAWN sid (arr_next st) (obj_next ?st3) (toHex randBase))
          (?st4\<lparr>winners := (winners ?st4)(sid \<mapsto> \<lparr>all_ref = arr_next st, tiers_ref = obj_next ?st3\<rparr>)\<rparr>)"
    by (simp add: draw_with_tiers_def Let_def)
  show "winners (snd (draw_with_tiers H J now sid s list randBase tierCounts st)) =
     (winners st)(sid \<mapsto> \<lparr>all_ref = arr_next st, tiers_ref = obj_next st\<rparr>)"
    by (simp add: res)
  show "obj_next (snd (draw_with_tiers H J now sid s list randBase tierCounts st)) = Suc (obj_next st)"
    by (simp add: res)
  have "arr_next (alloc_object (tier_refs ?own ?st2) ?st3) \<le> arr_next ?st4"
    by (rule arr_next_set_proto)
  then show "arr_next st < arr_next (snd (draw_with_tiers H J now sid s list randBase tierCounts st))"
    by (simp add: res)
qed

lemma well_formed_draw_with_tiers:
  assumes "well_formed st" and "sessions st sid = Some s"
  shows "well_formed (snd (draw_with_tiers H J now sid s list randBase tierCounts st))"
proof -
  let ?st' = "snd (draw_with_tiers H J now sid s list randBase tierCounts st)"
  have n: "arr_next st < arr_next ?st'"
    by (rule draw_with_tiers_allocation)
  have "all_ref w < arr_next ?st' \<and> tiers_ref w < obj_next ?st'"
    if "winners ?st' i = Some w" for i w
  proof (cases "i = sid")
    case True
    then show ?thesis
      using that n by (auto simp: draw_with_tiers_allocation(1,2))
  next
    case False
    then have "winners st i = Some w"
      using that by (simp add: draw_with_tiers_allocation(1))
    then have "all_ref w < arr_next st \<and> tiers_ref w < obj_next st"
      using assms(1) by (simp add: well_formed_def)
    then show ?thesis
      using n by (simp add: draw_with_tiers_allocation(2))
  qed
  moreover have "[] \<notin> dom (sessions ?st')"
    using assms by (auto simp: draw_with_tiers_frame well_formed_def)
  moreover have "revealedSeed s' \<noteq> Some []" if "sessions ?st' i = Some s'" for i s'
    using that assms by (auto simp: draw_with_tiers_frame well_formed_def split: if_splits)
  ultimately show ?thesis
    unfolding well_formed_def by blast
qed

lemma well_formed_draw:
  "well_formed st \<Longrightarrow> well_formed (snd (draw H J now sid numWinners tierCounts st))"
  by (simp add: draw_def Let_def well_formed_draw_single well_formed_draw_with_tiers
      split: option.splits)

lemma well_formed_ensure_winners:
  "well_formed st \<Longrightarrow> well_formed (ensure_winners sid st)"
  by (auto simp: ensure_winners_def well_formed_def new_winnersObj_def less_Suc_eq
      split: option.splits)

lemma well_formed_drawTier_record:
  assumes "well_formed st1" and "sessions st1 sid = Some s"
  shows "well_formed (snd (drawTier_record H J now sid tier count s seed w remaining st1))"
  using assms by (auto simp: drawTier_record_def Let_def well_formed_def less_Suc_eq)

lemma well_formed_drawTier:
  "well_formed st \<Longrightarrow> well_formed (snd (drawTier H J now sid tier count st))"
  by (simp add: drawTier_def Let_def well_formed_ensure_winners well_formed_drawTier_record
      split: option.splits)

lemma well_formed_handle:
  "well_formed st \<Longrightarrow> well_formed (snd (handle H J e st))"
  by (cases e)
    (simp_all add: well_formed_createSession well_formed_enter well_formed_revealSeed
      well_formed_draw well_formed_drawTier well_formed_importParticipants)

lemma well_formed_run: "well_formed (run H J t0 evs)"
  by (induction evs rule: rev_induct)
    (simp_all add: run_snoc well_formed_handle, simp add: run_def well_formed_init)

lemma reachable_well_formed: "reachable H J st \<Longrightarrow> well_formed st"
  by (auto simp: reachable_def well_formed_run)

lemma reachable_run: "reachable H J (run H J t0 evs)"
  by (auto simp: reachable_def)

lemma reachable_session_id:
  "reachable H J st \<Longrightarrow> sessions st sid = Some s \<Longrightarrow> sid \<noteq> []"
  by (auto simp: well_formed_def dest!: reachable_well_formed)


subsection \<open>Revealing the seed\<close>

text \<open>
  Claim C3, for a secret that is not empty. In a reachable state, \<open>revealSeed\<close> on an
  existing session with a non-empty secret whose hash is not the committed one fails
  with the hash mismatch and returns the state it was given: the revealed seed, the
  chain and the session are what they were.
\<close>

theorem revealSeed_wrong_secret:
  assumes "reachable H J st" and "sessions st sid = Some s"
    and "seed \<noteq> []" and "sha256_hex H seed \<noteq> seedHash s"
  shows "revealSeed H J now sid seed st = (Inl SeedHashMismatch, st)"
  using assms reachable_session_id [OF assms(1,2)]
  by (simp add: revealSeed_def)

theorem revealSeed_wrong_secret_witness:
  "reachable len_hash bar_json (scenario enrolled)
   \<and> map_option seedHash (sessions (scenario enrolled) ''5'') = Some (sha256_hex len_hash ''s3cr3t'')
   \<and> ''wrong'' \<noteq> []
   \<and> sha256_hex len_hash ''wrong'' \<noteq> sha256_hex len_hash ''s3cr3t''
   \<and> revealSeed len_hash bar_json 12 ''5'' ''wrong'' (scenario enrolled) =
       (Inl SeedHashMismatch, scenario enrolled)"
proof -
  have r: "reachable len_hash bar_json (scenario enrolled)"
    by (simp add: scenario_def reachable_run)
  have h: "map_option seedHash (sessions (scenario enrolled) ''5'') = Some (sha256_hex len_hash ''s3cr3t'')"
    by code_simp
  then obtain s where s: "sessions (scenario enrolled) ''5'' = Some s"
    "seedHash s = sha256_hex len_hash ''s3cr3t''"
    by auto
  have n: "sha256_hex len_hash ''wrong'' \<noteq> sha256_hex len_hash ''s3cr3t''"
    by code_simp
  have "revealSeed len_hash bar_json 12 ''5'' ''wrong'' (scenario enrolled) =
        (Inl SeedHashMismatch, scenario enrolled)"
    using n s(2) by (intro revealSeed_wrong_secret [OF r s(1)]) simp_all
  then show ?thesis
    using r h n by simp
qed

text \<open>
  Claim C3 as the specification states it fails for the empty secret: its hash is not
  the committed one, and the request is rejected for its missing field, not for the
  mismatch.
\<close>

theorem revealSeed_empty_secret_counterexample:
  "map_option seedHash (sessions (scenario enrolled) ''5'') = Some (sha256_hex len_hash ''s3cr3t'')
   \<and> sha256_hex len_hash [] \<noteq> sha256_hex len_hash ''s3cr3t''
   \<and> fst (revealSeed len_hash bar_json 12 ''5'' [] (scenario enrolled)) = Inl SessionIdAndSeedRequired"
  by code_simp

text \<open>
  Claim C4 on the code: the secret of the scenario, revealed a second time, is accepted
  again and a second \<open>SEED_REVEALED\<close> block is appended; it is accepted once more after
  the session has been drawn.
\<close>

theorem revealSeed_again_accepted:
  "fst (revealSeed len_hash bar_json 13 ''5'' ''s3cr3t'' (scenario revealed)) = Inr Ok
   \<and> drop 4 (map data (appended (snd (revealSeed len_hash bar_json 13 ''5'' ''s3cr3t'' (scenario revealed))))) =
       [SEED_REVEALED ''5'' ''s3cr3t'', SEED_REVEALED ''5'' ''s3cr3t'']
   \<and> map_option drawn (sessions (scenario (revealed @ [Draw 13 ''5'' 1 []])) ''5'') = Some True
   \<and> fst (revealSeed len_hash bar_json 14 ''5'' ''s3cr3t'' (scenario (revealed @ [Draw 13 ''5'' 1 []]))) = Inr Ok"
  by code_simp

subsection \<open>Enrolment\<close>

text \<open>
  Claim C5, as the code has it. \<open>enter\<close> does not look at the state of the session: in
  a reachable state, for an existing session, whether open, revealed or drawn, and a
  non-empty participant, a participant already enrolled gets the list back and the
  state is unchanged; a new participant is appended to the list and a \<open>USER_ENTERED\<close>
  block is appended to the chain.
\<close>

theorem enter_in_every_state:
  assumes "reachable H J st" and "sessions st sid = Some s" and "user \<noteq> []"
  shows "(user \<in> set (participants_of st sid) \<longrightarrow>
            enter H J now sid user st = (Inr (Participants (participants_of st sid)), st))
       \<and> (user \<notin> set (participants_of st sid) \<longrightarrow>
            fst (enter H J now sid user st) = Inr (Participants (participants_of st sid @ [user]))
          \<and> participants_of (snd (enter H J now sid user st)) sid = participants_of st sid @ [user]
          \<and> map data (appended (snd (enter H J now sid user st))) =
              map data (appended st) @ [USER_ENTERED sid user])"
  using assms reachable_session_id [OF assms(1,2)]
  by (simp add: enter_def Let_def addBlock_appended participants_of_def)

theorem enter_in_every_state_witness:
  "reachable len_hash bar_json (scenario (revealed @ [Draw 13 ''5'' 1 []]))
   \<and> map_option drawn (sessions (scenario (revealed @ [Draw 13 ''5'' 1 []])) ''5'') = Some True
   \<and> ''late'' \<noteq> []
   \<and> ''late'' \<notin> set (participants_of (scenario (revealed @ [Draw 13 ''5'' 1 []])) ''5'')
   \<and> fst (enter len_hash bar_json 14 ''5'' ''late'' (scenario (revealed @ [Draw 13 ''5'' 1 []]))) =
       Inr (Participants [''a'', ''b'', ''c'', ''late''])"
proof -
  let ?st = "scenario (revealed @ [Draw 13 ''5'' 1 []])"
  have r: "reachable len_hash bar_json ?st"
    by (simp add: scenario_def reachable_run)
  have d: "map_option drawn (sessions ?st ''5'') = Some True"
    by code_simp
  then obtain s where s: "sessions ?st ''5'' = Some s"
    by auto
  have p: "participants_of ?st ''5'' = [''a'', ''b'', ''c'']"
    by code_simp
  have u: "''late'' \<noteq> []"
    by simp
  show ?thesis
    using enter_in_every_state [OF r s u, of 14] r d p by simp
qed

text \<open>
  Claim C5 as the specification states it fails: after the seed of the scenario has
  been revealed, \<open>enter\<close> accepts a new participant, the list grows and the chain gets
  a block.
\<close>

theorem enter_after_reveal_counterexample:
  "map_option revealedSeed (sessions (scenario revealed) ''5'') = Some (Some ''s3cr3t'')
   \<and> participants_of (scenario revealed) ''5'' = [''a'', ''b'', ''c'']
   \<and> fst (enter len_hash bar_json 13 ''5'' ''late'' (scenario revealed)) =
       Inr (Participants [''a'', ''b'', ''c'', ''late''])
   \<and> participants_of (snd (enter len_hash bar_json 13 ''5'' ''late'' (scenario revealed))) ''5'' =
       [''a'', ''b'', ''c'', ''late'']
   \<and> length (chain (snd (enter len_hash bar_json 13 ''5'' ''late'' (scenario revealed)))) =
       Suc (length (chain (scenario revealed)))"
  by code_simp


subsection \<open>Drawing a tier\<close>

lemma getLatestHash_ensure_winners [simp]:
  "getLatestHash (ensure_winners sid st) = getLatestHash st"
  by (simp add: getLatestHash_def chain_def)

lemma participants_of_ensure_winners [simp]:
  "participants_of (ensure_winners sid st) sid' = participants_of st sid'"
  by (simp add: participants_of_def)

lemma drawTier_record_effect:
  "fst (drawTier_record H J now sid tier count s seed w remaining st1) =
     Inr (TierResult (selectWinners_at H remaining
            (min_count (targetCount tier count) (length remaining))
            (H (getLatestHash st1 @ seed @ tier))) tier)"
  "arrays (snd (drawTier_record H J now sid tier count s seed w remaining st1)) =
     (arrays st1)
       (arr_next st1 := selectWinners_at H remaining
            (min_count (targetCount tier count) (length remaining))
            (H (getLatestHash st1 @ seed @ tier)),
        all_ref w := ((arrays st1)
            (arr_next st1 := selectWinners_at H remaining
               (min_count (targetCount tier count) (length remaining))
               (H (getLatestHash st1 @ seed @ tier)))) (all_ref w)
          @ selectWinners_at H remaining
              (min_count (targetCount tier count) (length remaining))
              (H (getLatestHash st1 @ seed @ tier)))"
  "map data (appended (snd (drawTier_record H J now sid tier count s seed w remaining st1))) =
     map data (appended st1)
       @ [TIER_DRAWN sid tier (arr_next st1) (toHex (H (getLatestHash st1 @ seed @ tier)))]"
  by (simp_all add: drawTier_record_def Let_def addBlock_appended)

lemma drawTier_record_own:
  "tier \<noteq> ''__proto__'' \<Longrightarrow>
   objects (snd (drawTier_record H J now sid tier count s seed w remaining st1)) (tiers_ref w) =
     obj_set (objects st1 (tiers_ref w)) tier (arr_next st1)"
  by (simp add: drawTier_record_def Let_def tiers_set_own)

lemma drawTier_success:
  assumes "drawTier H J now sid tier count st = (Inr r, st')"
  obtains s seed where "sid \<noteq> []" and "tier \<noteq> []" and "sessions st sid = Some s"
    and "revealedSeed s = Some seed" and "seed \<noteq> []"
    and "drawTier_record H J now sid tier count s seed (winnersObj_of sid st)
           (filter (\<lambda>u. Some u \<notin> set (arrays (ensure_winners sid st) (all_ref (winnersObj_of sid st))))
              (participants_of st sid))
           (ensure_winners sid st) = (Inr r, st')"
  using assms
  by (auto simp: drawTier_def Let_def split: option.splits if_splits)





lemma getWinners_ensure_winners:
  "arrays (ensure_winners sid st) (all_ref (winnersObj_of sid st)) = fst (getWinners st sid)"
  by (simp add: ensure_winners_def winnersObj_of_def getWinners_def new_winnersObj_def
      split: option.splits)

lemma winnersObj_of_allocated:
  assumes "well_formed st"
  shows "all_ref (winnersObj_of sid st) < arr_next (ensure_winners sid st)"
  using assms
  by (auto simp: ensure_winners_def winnersObj_of_def new_winnersObj_def well_formed_def
      split: option.splits)

lemma requested_count_positive:
  assumes "0 \<le> count"
  shows "0 < requested_count tier count"
  using assms
  by (auto simp: requested_count_def DEFAULT_COUNTS_def split: option.splits if_splits)

lemma targetCount_plain:
  assumes "inherited_from_Object tier = Undef"
  shows "targetCount tier count = Some (requested_count tier count)"
  using assms by (simp add: targetCount_def requested_count_def split: option.splits)

lemma selectWinners_at_plain:
  assumes "inherited_from_Object tier = Undef" and "0 \<le> count"
  shows "selectWinners_at H remaining (min_count (targetCount tier count) (length remaining)) material =
         map Some (partial_fisher_yates H remaining material
           (nat (min (requested_count tier count) (int (length remaining)))))"
proof -
  let ?k = "min (requested_count tier count) (int (length remaining))"
  have "0 \<le> ?k"
    using requested_count_positive [OF assms(2), of tier] by simp
  then have k: "int (nat ?k) = ?k" and le: "nat ?k \<le> length remaining"
    by simp_all
  have "selectWinners H remaining (int (nat ?k)) material =
        map Some (partial_fisher_yates H remaining material (nat ?k))"
    using le by (rule selectWinners_eq)
  then show ?thesis
    by (simp only: k targetCount_plain [OF assms(1)] min_count_def selectWinners_at_def
        option.map option.case)
qed

text \<open>
  Claim C9, as the code has it. In a reachable state, a successful \<open>drawTier\<close> for a
  session with revealed seed \<open>seed\<close>, a count that is not negative and a tier name that
  \<open>Object.prototype\<close> does not define returns the winners
  \<open>select(remaining, material, min(c, len(remaining)))\<close>, where the material is the hash
  of the chain tip at the call followed by the seed and the tier name, \<open>remaining\<close> is
  the participants not yet in \<open>allWinners\<close>, and \<open>c\<close> is the count when it is not 0 and
  the default of the tier (special 1, first 5, second 5, third 20, others 1)
  otherwise. The same winners are recorded under the tier and appended to
  \<open>allWinners\<close>, and the block appended to the chain carries them and the material in
  hexadecimal.
\<close>

theorem drawTier_winners:
  assumes "reachable H J st" and "drawTier H J now sid tier count st = (Inr r, st')"
    and "sessions st sid = Some s" and "revealedSeed s = Some seed"
    and "0 \<le> count" and "inherited_from_Object tier = Undef"
  shows "r = TierResult (tier_selection H st sid tier count seed) tier
       \<and> map_of (snd (getWinners st' sid)) tier = Some (tier_selection H st sid tier count seed)
       \<and> fst (getWinners st' sid) = fst (getWinners st sid) @ tier_selection H st sid tier count seed
       \<and> resolve (arrays st') (objects st') (last (map data (appended st'))) =
           TIER_DRAWN sid tier (tier_selection H st sid tier count seed)
             (toHex (H (getLatestHash st @ seed @ tier)))"
proof -
  let ?w = "winnersObj_of sid st"
  let ?st1 = "ensure_winners sid st"
  let ?sel = "tier_selection H st sid tier count seed"
  from assms(2) obtain s0 seed0 where
    f: "sessions st sid = Some s0" "revealedSeed s0 = Some seed0"
    and rec: "drawTier_record H J now sid tier count s0 seed0 ?w (remaining_participants st sid) ?st1 =
              (Inr r, st')"
    by (rule drawTier_success) (simp add: remaining_participants_def getWinners_ensure_winners)
  have eq: "s0 = s" "seed0 = seed"
    using f assms(3,4) by simp_all
  let ?rec = "drawTier_record H J now sid tier count s seed ?w (remaining_participants st sid) ?st1"
  have st': "st' = snd ?rec" and r: "fst ?rec = Inr r"
    using rec eq by simp_all
  have plain: "tier \<noteq> ''__proto__''"
    using assms(6) by (auto simp: inherited_from_Object_def)
  have at: "selectWinners_at H (remaining_participants st sid)
              (min_count (targetCount tier count) (length (remaining_participants st sid)))
              (H (getLatestHash st @ seed @ tier)) = ?sel"
    using selectWinners_at_plain [OF assms(6,5)] by (simp add: tier_selection_def)
  have sel: "r = TierResult ?sel tier"
    using r by (simp add: drawTier_record_effect at)
  have fresh: "all_ref ?w \<noteq> arr_next ?st1"
    using winnersObj_of_allocated [OF reachable_well_formed [OF assms(1)], of sid] by simp
  have win: "winners st' sid = Some ?w"
    unfolding st' by (simp add: drawTier_record_frame)
  have arr_new: "arrays st' (arr_next ?st1) = ?sel"
    unfolding st' using fresh by (simp add: drawTier_record_effect at)
  have arr_all: "arrays st' (all_ref ?w) = fst (getWinners st sid) @ ?sel"
    unfolding st' using fresh
    by (simp add: drawTier_record_effect at getWinners_ensure_winners)
  have "map_of (objects st' (tiers_ref ?w)) tier = Some (arr_next ?st1)"
    unfolding st' using plain by (simp add: drawTier_record_own map_of_obj_set)
  then have tiers: "map_of (snd (getWinners st' sid)) tier = Some ?sel"
    using win arr_new by (simp add: getWinners_def map_of_map)
  have all: "fst (getWinners st' sid) = fst (getWinners st sid) @ ?sel"
    using win arr_all by (simp add: getWinners_def)
  have "last (map data (appended st')) =
        TIER_DRAWN sid tier (arr_next ?st1) (toHex (H (getLatestHash st @ seed @ tier)))"
    unfolding st' by (simp add: drawTier_record_effect)
  then have blk: "resolve (arrays st') (objects st') (last (map data (appended st'))) =
        TIER_DRAWN sid tier ?sel (toHex (H (getLatestHash st @ seed @ tier)))"
    using arr_new by (simp add: resolve_def)
  show ?thesis
    using sel tiers all blk by simp
qed

theorem drawTier_winners_witness:
  "reachable len_hash bar_json (scenario revealed)
   \<and> drawTier len_hash bar_json 11 ''5'' ''second'' 10 (scenario revealed) =
       (Inr (TierResult [Some ''a'', Some ''c'', Some ''b''] ''second''),
        snd (drawTier len_hash bar_json 11 ''5'' ''second'' 10 (scenario revealed)))
   \<and> map_option revealedSeed (sessions (scenario revealed) ''5'') = Some (Some ''s3cr3t'')
   \<and> (0::int) \<le> 10
   \<and> inherited_from_Object ''second'' = Undef
   \<and> tier_selection len_hash (scenario revealed) ''5'' ''second'' 10 ''s3cr3t'' =
       [Some ''a'', Some ''c'', Some ''b'']
   \<and> map_of (snd (getWinners (snd (drawTier len_hash bar_json 11 ''5'' ''second'' 10 (scenario revealed))) ''5''))
        ''second'' = Some [Some ''a'', Some ''c'', Some ''b'']"
proof -
  have r: "reachable len_hash bar_json (scenario revealed)"
    by (simp add: scenario_def reachable_run)
  have "fst (drawTier len_hash bar_json 11 ''5'' ''second'' 10 (scenario revealed)) =
        Inr (TierResult [Some ''a'', Some ''c'', Some ''b''] ''second'')"
    by code_simp
  then have h: "drawTier len_hash bar_json 11 ''5'' ''second'' 10 (scenario revealed) =
       (Inr (TierResult [Some ''a'', Some ''c'', Some ''b''] ''second''),
        snd (drawTier len_hash bar_json 11 ''5'' ''second'' 10 (scenario revealed)))"
    by (simp add: prod_eq_iff)
  have e: "map_option revealedSeed (sessions (scenario revealed) ''5'') = Some (Some ''s3cr3t'')"
    by code_simp
  then obtain s where s: "sessions (scenario revealed) ''5'' = Some s" "revealedSeed s = Some ''s3cr3t''"
    by auto
  have c: "(0::int) \<le> 10"
    by simp
  have p: "inherited_from_Object ''second'' = Undef"
    by code_simp
  show ?thesis
    using drawTier_winners [OF r h s c p] r h e p by simp
qed

text \<open>
  Claim C9 as the specification states it fails for the count 0: the tier \<open>x\<close> has no
  default, the code draws one winner, and \<open>select\<close> with \<open>min(0, len(remaining))\<close> is
  empty.
\<close>

theorem drawTier_count_zero_counterexample:
  "fst (drawTier len_hash bar_json 11 ''5'' ''x'' 0 (scenario revealed)) =
     Inr (TierResult [Some ''a''] ''x'')
   \<and> selectWinners len_hash (remaining_participants (scenario revealed) ''5'')
        (min 0 (int (length (remaining_participants (scenario revealed) ''5''))))
        (len_hash (getLatestHash (scenario revealed) @ ''s3cr3t'' @ ''x'')) = []"
  by code_simp

subsection \<open>A tier drawn after a whole-session draw\<close>

text \<open>
  \<open>drawTier\<close> does not look at the \<open>drawn\<close> flag, and the whole-session draw puts one
  array into the winners record (as \<open>all\<close> and as the tier \<open>default\<close>) and into its
  \<open>DRAWN\<close> block. In the scenario, one winner is drawn for the session and then the
  tier \<open>special\<close> is drawn.

  Claim C6 on the code: the winner of the tier \<open>special\<close> is pushed to the shared
  array and so is a winner of the tier \<open>default\<close> as well.
\<close>

theorem drawTier_after_draw_wins_twice:
  "getWinners (scenario (revealed @ [Draw 11 ''5'' 1 []])) ''5'' =
     ([Some ''a''], [(''default'', [Some ''a''])])
   \<and> getWinners (scenario (revealed @ [Draw 11 ''5'' 1 [], DrawTier 12 ''5'' ''special'' 1])) ''5'' =
     ([Some ''a'', Some ''c''], [(''default'', [Some ''a'', Some ''c'']), (''special'', [Some ''c''])])"
  by code_simp

text \<open>
  Claim C2 on the code: the chain is valid after the draw, and after the tier is drawn
  the \<open>DRAWN\<close> block no longer has the hash it was appended with, since its winners
  have changed.
\<close>

theorem drawTier_after_draw_breaks_chain:
  "isValid len_hash bar_json (scenario (revealed @ [Draw 11 ''5'' 1 []]))
   \<and> \<not> isValid len_hash bar_json (scenario (revealed @ [Draw 11 ''5'' 1 [], DrawTier 12 ''5'' ''special'' 1]))"
  by code_simp

end
